theory Spec2Isabelle
  imports
    Complex_Main
    "HOL-Library.Sublist"
    "HOL-Library.AList"
    "HOL-Library.Char_ord"
    "HOL-Library.List_Lexorder"
    "HOL-Library.Log_Nat"
begin

chapter \<open>Scan orchestration and analytics of the smart-audit dashboard\<close>

text \<open>
  The development embeds two route handlers of the web dashboard: the scan route
  (\<^verbatim>\<open>POST\<close> with \<^verbatim>\<open>validateContractPath\<close>, \<^verbatim>\<open>executeScanPipeline\<close>,
  \<^verbatim>\<open>runStaticAnalysis\<close>, \<^verbatim>\<open>runAIAnalysis\<close>, \<^verbatim>\<open>saveToHistory\<close>, \<^verbatim>\<open>cacheReport\<close>,
  \<^verbatim>\<open>updateScanStatus\<close>, \<^verbatim>\<open>calculateRiskScore\<close>, \<^verbatim>\<open>countGasOptimizations\<close>) and the
  analytics route (\<^verbatim>\<open>calculateScanTrends\<close>, \<^verbatim>\<open>calculateDetailedAnalytics\<close>,
  \<^verbatim>\<open>getMostCommonSeverity\<close>).

  Conventions of the embedding.
  \<^item> A JavaScript string is a \<^typ>\<open>string\<close>, one \<^typ>\<open>char\<close> per code unit; the
    embedding covers code units below 256.
  \<^item> A JavaScript number is an IEEE-754 double: a finite one is the rational number it
    denotes (an integer where the code only produces integers), \<^verbatim>\<open>NaN\<close> is a value of
    its own, and a product or a sum is the exact result rounded to the nearest double,
    ties to even. The exponent is bounded below (subnormal numbers, underflow to 0) and
    not above: a result of magnitude \<open>2^1024\<close> or more, which the language turns into
    an infinity, is outside the embedding, and so is the sign of zero.
  \<^item> The file system, the clock and the external analyzer are inputs: an environment
    record tells what each call observes, a store record holds the three persisted
    collections.
  \<^item> An exception is a value: a function that may throw returns \<open>string + 'a\<close>, the
    left injection carrying \<^verbatim>\<open>error.message\<close>; where the code also reads
    \<^verbatim>\<open>error.code\<close>, the exception is a record of both.
\<close>

section \<open>Strings\<close>

text \<open>\<^verbatim>\<open>s.includes(t)\<close> and \<^verbatim>\<open>s.endsWith(t)\<close>.\<close>

definition includes_str :: "string \<Rightarrow> string \<Rightarrow> bool" where
  "includes_str s t = sublist t s"

definition endsWith :: "string \<Rightarrow> string \<Rightarrow> bool" where
  "endsWith s t = suffix t s"

text \<open>
  \<^verbatim>\<open>s.split(sep)\<close> for a one-character separator (the empty string splits into one
  empty piece) and \<^verbatim>\<open>pieces.join(sep)\<close>.
\<close>

fun split :: "char \<Rightarrow> string \<Rightarrow> string list" where
  "split sep [] = [[]]"
| "split sep (c # cs) =
     (if c = sep then [] # split sep cs
      else (case split sep cs of
              [] \<Rightarrow> [[c]]
            | w # ws \<Rightarrow> (c # w) # ws))"

fun join :: "string \<Rightarrow> string list \<Rightarrow> string" where
  "join sep [] = []"
| "join sep [w] = w"
| "join sep (w # ws) = w @ sep @ join sep ws"

text \<open>
  \<^verbatim>\<open>toLowerCase\<close> on code units below 256: the ASCII capitals and the Latin-1 capitals
  (\<open>0xC0\<close> to \<open>0xDE\<close> without the multiplication sign \<open>0xD7\<close>) move up by 32.
\<close>

definition lower_char :: "char \<Rightarrow> char" where
  "lower_char c =
     (let n = (of_char c :: nat)
      in if (65 \<le> n \<and> n \<le> 90) \<or> (192 \<le> n \<and> n \<le> 222 \<and> n \<noteq> 215)
         then char_of (n + 32) else c)"

definition toLowerCase :: "string \<Rightarrow> string" where
  "toLowerCase s = map lower_char s"

text \<open>
  \<^verbatim>\<open>toUpperCase\<close> of one character. The code applies it to the first character of a word
  of a normalized key, which is a lowercase ASCII letter or a digit.
\<close>

definition upper_char :: "char \<Rightarrow> char" where
  "upper_char c =
     (let n = (of_char c :: nat)
      in if 97 \<le> n \<and> n \<le> 122 then char_of (n - 32) else c)"

text \<open>\<^verbatim>\<open>trim\<close>: white space and line terminators below 256 leave both ends.\<close>

definition is_space :: "char \<Rightarrow> bool" where
  "is_space c = ((of_char c :: nat) \<in> {9, 10, 11, 12, 13, 32, 160})"

definition trim :: "string \<Rightarrow> string" where
  "trim s = rev (dropWhile is_space (rev (dropWhile is_space s)))"

section \<open>Plain objects used as dictionaries\<close>

text \<open>
  The code keeps several tables in object literals (\<^verbatim>\<open>weights\<close>, \<^verbatim>\<open>trends\<close>,
  \<^verbatim>\<open>severityDistribution\<close>, \<^verbatim>\<open>vulnerabilities\<close>, \<^verbatim>\<open>counts\<close>) and indexes them with
  strings that come from its input. Such an object is an association list of its own
  properties in creation order, and three facts of the language are part of the model:
  \<^item> reading a key that is not an own property finds the members of
    \<^verbatim>\<open>Object.prototype\<close> (a function or an object, hence truthy), and finds
    \<^verbatim>\<open>undefined\<close> only for every other key;
  \<^item> assigning a primitive to \<^verbatim>\<open>__proto__\<close> creates no property;
  \<^item> \<^verbatim>\<open>Object.entries\<close> and \<^verbatim>\<open>Object.values\<close> list the array-index keys first, in
    ascending numeric order, and then the other keys in creation order.
\<close>

definition object_prototype_names :: "string list" where
  "object_prototype_names =
     [''constructor'', ''__proto__'', ''hasOwnProperty'', ''isPrototypeOf'',
      ''propertyIsEnumerable'', ''toLocaleString'', ''toString'', ''valueOf'',
      ''__defineGetter__'', ''__defineSetter__'', ''__lookupGetter__'',
      ''__lookupSetter__'']"

definition inherited :: "string \<Rightarrow> bool" where
  "inherited k = (k \<in> set object_prototype_names)"

datatype 'v lookup = Own 'v | Inherited | Undefined

definition get :: "(string \<times> 'v) list \<Rightarrow> string \<Rightarrow> 'v lookup" where
  "get obj k =
     (case map_of obj k of
        Some v \<Rightarrow> Own v
      | None \<Rightarrow> if inherited k then Inherited else Undefined)"

text \<open>
  An array index is the canonical decimal numeral of a number up to \<open>2^32 - 2\<close>:
  digits only, no leading zero except for \<open>0\<close> itself.
\<close>

definition is_digit :: "char \<Rightarrow> bool" where
  "is_digit c = (48 \<le> (of_char c :: nat) \<and> (of_char c :: nat) \<le> 57)"

definition decimal_value :: "string \<Rightarrow> nat" where
  "decimal_value s = foldl (\<lambda>n c. 10 * n + ((of_char c :: nat) - 48)) 0 s"

definition array_index :: "string \<Rightarrow> nat option" where
  "array_index k =
     (if k \<noteq> [] \<and> list_all is_digit k \<and> (length k = 1 \<or> hd k \<noteq> CHR ''0'')
         \<and> length k \<le> 10 \<and> decimal_value k \<le> 4294967294
      then Some (decimal_value k) else None)"

definition entries :: "(string \<times> 'v) list \<Rightarrow> (string \<times> 'v) list" where
  "entries obj =
     sort_key (\<lambda>p. the (array_index (fst p))) (filter (\<lambda>p. array_index (fst p) \<noteq> None) obj)
     @ filter (\<lambda>p. array_index (fst p) = None) obj"

section \<open>Numbers\<close>

text \<open>A number that may be \<^verbatim>\<open>NaN\<close>.\<close>

datatype 'a number = NaN | Num 'a

text \<open>
  The doubles. For \<open>x > 0\<close>, \<open>exponent x\<close> is the integer \<open>e\<close> with
  \<open>2^e \<le> x < 2^(e+1)\<close>. Around \<open>x\<close> the doubles are the multiples of
  \<open>quantum x\<close>: 53 significant bits, and the fixed spacing \<open>2^-1074\<close> below
  \<open>2^-1022\<close>. The double nearest to \<open>x\<close> is the nearest multiple, a tie going to
  the even one; this is the value of a numeric literal and the result of an arithmetic
  operation whose exact result is \<open>x\<close>.
\<close>

definition exponent :: "rat \<Rightarrow> int" where
  "exponent x = (if 1 \<le> x then bitlen \<lfloor>x\<rfloor> - 1 else - bitlen (\<lceil>1 / x\<rceil> - 1))"

definition round_half_even :: "rat \<Rightarrow> int" where
  "round_half_even x =
     (let n = \<lfloor>x\<rfloor>; r = x - of_int n
      in if r < 1 / 2 then n else if 1 / 2 < r then n + 1 else if even n then n else n + 1)"

definition quantum :: "rat \<Rightarrow> rat" where
  "quantum x = 2 powi (max (exponent \<bar>x\<bar>) (- 1022) - 52)"

definition nearest_double :: "rat \<Rightarrow> rat" where
  "nearest_double x = sgn x * (of_int (round_half_even (\<bar>x\<bar> / quantum x)) * quantum x)"

section \<open>Data model\<close>

text \<open>
  An element of \<^verbatim>\<open>ScanReport.static\<close> or \<^verbatim>\<open>ScanReport.ai\<close>. The two element types of
  the interface differ only in which fields are optional; one record covers both, an
  optional field being an \<open>option\<close>. The confidence is the number that the JSON
  document of the analyzer writes; the program holds the double nearest to it.
\<close>

record finding =
  tool :: "string option"
  severity :: string
  title :: string
  description :: "string option"
  location :: string
  confidence :: "rat option"
  reasoning :: "string option"
  suggested_fix :: "string option"

text \<open>\<^verbatim>\<open>ScanReport.metadata\<close> and \<^verbatim>\<open>ScanReport\<close>; the fields of the report carry the prefix \<open>report_\<close>.\<close>

record metadata =
  tools_used :: "string list"
  ai_enabled :: bool
  total_findings :: nat
  risk_score :: "int number"
  gas_optimization_count :: nat

record scan_report =
  report_id :: string
  report_path :: string
  report_timestamp :: int
  report_duration :: int
  report_pipeline :: string
  static :: "finding list"
  ai :: "finding list"
  metadata :: metadata

section \<open>Risk scorer\<close>

text \<open>The object literal \<^verbatim>\<open>weights\<close> of \<^verbatim>\<open>calculateRiskScore\<close>.\<close>

definition weights :: "(string \<times> rat) list" where
  "weights =
     [(''critical'', 10), (''high'', 7), (''medium'', 4), (''low'', 2), (''info'', 1)]"

text \<open>
  \<^verbatim>\<open>weights[finding.severity] || 1\<close>, as the factor it becomes in the product: an own
  property gives its number, \<^verbatim>\<open>undefined\<close> gives 1, and an inherited member is truthy,
  stays, and turns the product into \<^verbatim>\<open>NaN\<close>.
\<close>

definition weight :: "string \<Rightarrow> rat number" where
  "weight sev =
     (case get weights sev of
        Own w \<Rightarrow> if w = 0 then Num 1 else Num w
      | Undefined \<Rightarrow> Num 1
      | Inherited \<Rightarrow> NaN)"

text \<open>
  \<^verbatim>\<open>finding.confidence || 0.8\<close>, in doubles: the default also replaces a confidence
  that is 0 (or so small that its double is 0).
\<close>

definition confidence_or_default :: "finding \<Rightarrow> rat" where
  "confidence_or_default f =
     (case confidence f of
        None \<Rightarrow> nearest_double (4 / 5)
      | Some c \<Rightarrow> if nearest_double c = 0 then nearest_double (4 / 5) else nearest_double c)"

text \<open>
  The body of the \<^verbatim>\<open>forEach\<close>: \<^verbatim>\<open>score += weight * confidence\<close>, a multiplication
  and an addition of doubles, each rounded.
\<close>

definition add_contribution :: "rat number \<Rightarrow> finding \<Rightarrow> rat number" where
  "add_contribution score f =
     (case score of
        NaN \<Rightarrow> NaN
      | Num s \<Rightarrow>
          (case weight (severity f) of
             NaN \<Rightarrow> NaN
           | Num w \<Rightarrow>
               Num (nearest_double (s + nearest_double (w * confidence_or_default f)))))"

text \<open>
  \<^verbatim>\<open>Math.min(Math.round(score), 100)\<close>; \<^verbatim>\<open>Math.round\<close> gives the integer nearest to
  the double, a half going towards \<open>+\<infinity>\<close>, as \<^const>\<open>round\<close> does.
\<close>

definition calculateRiskScore :: "scan_report \<Rightarrow> int number" where
  "calculateRiskScore report =
     (case foldl add_contribution (Num 0) (static report @ ai report) of
        NaN \<Rightarrow> NaN
      | Num score \<Rightarrow> Num (min (round score) 100))"

subsection \<open>The scorer as the specification words it\<close>

text \<open>
  The weight table of the specification, on the five severities it names; it gives no
  weight to any other value, for which this function is 0. The stated score is the sum
  of the products of weight and confidence, in exact arithmetic, rounded and clamped.
\<close>

definition canonical_severities :: "string list" where
  "canonical_severities = [''critical'', ''high'', ''medium'', ''low'', ''info'']"

definition table_weight :: "string \<Rightarrow> rat" where
  "table_weight sev =
     (if sev = ''critical'' then 10
      else if sev = ''high'' then 7
      else if sev = ''medium'' then 4
      else if sev = ''low'' then 2
      else if sev = ''info'' then 1
      else 0)"

text \<open>The confidence of a finding, 0.8 when the field is absent.\<close>

definition confidence_when_absent :: "finding \<Rightarrow> rat" where
  "confidence_when_absent f = (case confidence f of None \<Rightarrow> 4 / 5 | Some c \<Rightarrow> c)"

definition stated_score :: "finding list \<Rightarrow> int" where
  "stated_score fs =
     min (round (\<Sum>f\<leftarrow>fs. table_weight (severity f) * confidence_when_absent f)) 100"

text \<open>The canonical order \<open>info < low < medium < high < critical\<close>.\<close>

definition severity_rank :: "string \<Rightarrow> nat option" where
  "severity_rank sev =
     (if sev = ''info'' then Some 0
      else if sev = ''low'' then Some 1
      else if sev = ''medium'' then Some 2
      else if sev = ''high'' then Some 3
      else if sev = ''critical'' then Some 4
      else None)"

section \<open>Stores and environment of the scan route\<close>

text \<open>
  The status record that \<^verbatim>\<open>updateScanStatus\<close> writes (fields \<^verbatim>\<open>scanId\<close>, \<^verbatim>\<open>status\<close>,
  \<^verbatim>\<open>message\<close>, \<^verbatim>\<open>timestamp\<close>) and the summary that \<^verbatim>\<open>saveToHistory\<close> writes (fields
  \<^verbatim>\<open>id\<close>, \<^verbatim>\<open>path\<close>, \<^verbatim>\<open>timestamp\<close>, \<^verbatim>\<open>duration\<close>, \<^verbatim>\<open>findings_count\<close>,
  \<^verbatim>\<open>risk_score\<close>, \<^verbatim>\<open>status\<close>, \<^verbatim>\<open>pipeline\<close>, \<^verbatim>\<open>ai_enabled\<close>). A risk score that is
  \<^verbatim>\<open>NaN\<close> is written as \<^verbatim>\<open>null\<close> by \<^verbatim>\<open>JSON.stringify\<close>; \<^const>\<open>NaN\<close> stands for
  both.
\<close>

record status_record =
  st_scanId :: string
  st_status :: string
  st_message :: string
  st_timestamp :: int

record history_entry =
  entry_id :: string
  entry_path :: string
  entry_timestamp :: int
  entry_duration :: int
  findings_count :: nat
  entry_risk_score :: "int number"
  entry_status :: string
  entry_pipeline :: string
  entry_ai_enabled :: bool

text \<open>
  The persisted collections under \<^verbatim>\<open>data/\<close>: one status file and one cache file per
  scan id, and the ledger \<^verbatim>\<open>scan_history.json\<close>, which is \<^const>\<open>None\<close> while there
  is no readable document. Directories are not modelled: a failing \<^verbatim>\<open>mkdir\<close> and a
  failing \<^verbatim>\<open>writeFile\<close> both leave the collection as it was.
\<close>

record store =
  status_files :: "string \<rightharpoonup> status_record"
  cache_files :: "string \<rightharpoonup> scan_report"
  history_file :: "history_entry list option"

text \<open>
  The places where the route reads the clock or writes a file: the start of the
  request, the creation of the report, the end of the pipeline, the six status
  updates, the ledger and the cache.
\<close>

datatype site =
  Start | Created | Finished
  | Initializing | RunningStatic | RunningAI | Processing | Completed | Failed
  | History | Cache

text \<open>What \<^verbatim>\<open>fs.stat\<close> and, for a directory, \<^verbatim>\<open>fs.readdir\<close> find; \<^const>\<open>None\<close> in a
  directory is a \<^verbatim>\<open>readdir\<close> that throws.\<close>

datatype stat_result = Missing | File | Directory "string list option" | Other

text \<open>The document \<^verbatim>\<open>last_report.json\<close> of the analyzer, as far as the route reads it.\<close>

record cli_report =
  cli_static :: "finding list option"
  cli_ai :: "finding list option"

text \<open>
  The environment of one request: the working directory, the file system under the
  scanned path, \<^verbatim>\<open>Date.now()\<close> at each site, whether the write at a site succeeds, the
  outcome of \<^verbatim>\<open>execAsync\<close> for a command and a timeout (\<^const>\<open>Some\<close> message when it
  rejects), and what reading and parsing \<^verbatim>\<open>last_report.json\<close> gives after the static
  and after the AI pass (\<^const>\<open>Inl\<close> message when it throws).
\<close>

record env =
  cwd :: string
  stat :: "string \<Rightarrow> stat_result"
  now :: "site \<Rightarrow> int"
  io_ok :: "site \<Rightarrow> bool"
  exec :: "string \<Rightarrow> nat \<Rightarrow> string option"
  last_report :: "site \<Rightarrow> string + cli_report"

text \<open>
  An exception as the \<^verbatim>\<open>catch\<close> block of the route reads it: \<^verbatim>\<open>error.message\<close> and
  \<^verbatim>\<open>error.code\<close>. The code is a string where the error has one (the system errors of
  the platform carry one, such as \<^verbatim>\<open>ECONNRESET\<close>) and \<^const>\<open>None\<close> where it has
  none, as for every error made by \<^verbatim>\<open>new Error(message)\<close>.
\<close>

record caught_error =
  error_message :: string
  error_code :: "string option"

text \<open>The body of the request after \<^verbatim>\<open>request.json()\<close>; an absent member is \<^const>\<open>None\<close>.\<close>

record scan_request =
  contractPath :: "string option"
  includeAI :: "bool option"
  req_severity :: "string option"
  req_tools :: "string list option"
  req_pipeline :: "string option"

text \<open>
  The three kinds of response: the report (200), \<^verbatim>\<open>{error, code}\<close> (400) and
  \<^verbatim>\<open>{error, code, scanId}\<close> (500).
\<close>

datatype response =
  Ok scan_report
  | Bad_request string string
  | Server_error string string string

section \<open>Path validation\<close>

text \<open>
  \<^verbatim>\<open>path.resolve(p)\<close> on POSIX: a relative path is taken from the working directory;
  empty segments and \<open>.\<close> vanish, \<open>..\<close> removes the segment before it, and the root
  is its own parent.
\<close>

fun normalize :: "string list \<Rightarrow> string list \<Rightarrow> string list" where
  "normalize up [] = rev up"
| "normalize up (seg # segs) =
     (if seg = [] \<or> seg = ''.'' then normalize up segs
      else if seg = ''..'' then normalize (tl up) segs
      else normalize (seg # up) segs)"

definition resolve :: "string \<Rightarrow> string \<Rightarrow> string" where
  "resolve wd p =
     CHR ''/'' # join ''/'' (normalize []
       (split CHR ''/'' (if p \<noteq> [] \<and> hd p = CHR ''/'' then p else wd @ ''/'' @ p)))"

datatype validation = Valid string | Invalid string

definition validateContractPath :: "env \<Rightarrow> string \<Rightarrow> validation" where
  "validateContractPath e path =
     (let resolvedPath = resolve (cwd e) path
      in if \<not> includes_str resolvedPath (cwd e)
         then Invalid ''Invalid file path - outside project directory''
         else (case stat e resolvedPath of
                 Missing \<Rightarrow> Invalid ''File or directory not found''
               | File \<Rightarrow>
                   if \<not> endsWith resolvedPath ''.sol''
                   then Invalid ''Only .sol files are supported''
                   else Valid resolvedPath
               | Directory None \<Rightarrow> Invalid ''File or directory not found''
               | Directory (Some files) \<Rightarrow>
                   if filter (\<lambda>f. endsWith f ''.sol'') files = []
                   then Invalid ''No .sol files found in directory''
                   else Valid resolvedPath
               | Other \<Rightarrow> Invalid ''Path must be a file or directory''))"

text \<open>
  What the specification asks of a validated path: to be the trusted root or to lie
  below it.
\<close>

definition descendant :: "string \<Rightarrow> string \<Rightarrow> bool" where
  "descendant base p = (p = base \<or> prefix (base @ ''/'') p)"

section \<open>The scan pipeline\<close>

text \<open>
  \<^verbatim>\<open>updateScanStatus\<close> replaces the status file of the scan; an error of \<^verbatim>\<open>mkdir\<close> or
  \<^verbatim>\<open>writeFile\<close> is logged and swallowed.
\<close>

definition updateScanStatus :: "env \<Rightarrow> site \<Rightarrow> string \<Rightarrow> string \<Rightarrow> string \<Rightarrow> store \<Rightarrow> store" where
  "updateScanStatus e place scanId status message s =
     (if io_ok e place
      then s\<lparr>status_files := (status_files s)(scanId \<mapsto>
             \<lparr>st_scanId = scanId, st_status = status, st_message = message,
              st_timestamp = now e place\<rparr>)\<rparr>
      else s)"

text \<open>The two command lines; \<open>CHR 0x22\<close> is the double quote around the path.\<close>

definition static_command :: "string \<Rightarrow> string list \<Rightarrow> string \<Rightarrow> string \<Rightarrow> string" where
  "static_command path tools sev pipeline =
     ''spoon-audit scan '' @ [CHR 0x22] @ path @ [CHR 0x22] @ '' --no-ai --tools=''
     @ join '','' tools @ '' --severity='' @ sev @ '' --pipeline='' @ pipeline
     @ '' --output-format=json''"

definition ai_command :: "string \<Rightarrow> string \<Rightarrow> string \<Rightarrow> string" where
  "ai_command path pipeline sev =
     ''spoon-audit ai-analyze '' @ [CHR 0x22] @ path @ [CHR 0x22]
     @ '' --context-static --pipeline='' @ pipeline @ '' --severity='' @ sev
     @ '' --multi-model''"

text \<open>
  \<^verbatim>\<open>runStaticAnalysis\<close>: run the command, read \<^verbatim>\<open>last_report.json\<close>, return
  \<^verbatim>\<open>cliReport.static || []\<close>; every error is thrown again with a prefix.
\<close>

definition runStaticAnalysis :: "env \<Rightarrow> string \<Rightarrow> string list \<Rightarrow> string \<Rightarrow> string \<Rightarrow> string + finding list" where
  "runStaticAnalysis e path tools sev pipeline =
     (case exec e (static_command path tools sev pipeline)
             (if pipeline = ''fast'' then 60000 else 180000) of
        Some msg \<Rightarrow> Inl (''Static analysis failed: '' @ msg)
      | None \<Rightarrow>
          (case last_report e RunningStatic of
             Inl msg \<Rightarrow> Inl (''Static analysis failed: '' @ msg)
           | Inr cliReport \<Rightarrow>
               Inr (case cli_static cliReport of None \<Rightarrow> [] | Some fs \<Rightarrow> fs)))"

text \<open>\<^verbatim>\<open>runAIAnalysis\<close>: the same for \<^verbatim>\<open>cliReport.ai\<close>, but every error gives \<^verbatim>\<open>[]\<close>.\<close>

definition runAIAnalysis :: "env \<Rightarrow> string \<Rightarrow> string \<Rightarrow> string \<Rightarrow> finding list" where
  "runAIAnalysis e path pipeline sev =
     (case exec e (ai_command path pipeline sev)
             (if pipeline = ''fast'' then 90000 else 300000) of
        Some msg \<Rightarrow> []
      | None \<Rightarrow>
          (case last_report e RunningAI of
             Inl msg \<Rightarrow> []
           | Inr cliReport \<Rightarrow> (case cli_ai cliReport of None \<Rightarrow> [] | Some fs \<Rightarrow> fs)))"

definition gasKeywords :: "string list" where
  "gasKeywords = [''gas'', ''optimization'', ''efficiency'', ''cost'']"

definition countGasOptimizations :: "scan_report \<Rightarrow> nat" where
  "countGasOptimizations report =
     length (filter
       (\<lambda>f. list_ex
          (includes_str (toLowerCase
             (title f @ '' '' @ (case description f of None \<Rightarrow> [] | Some d \<Rightarrow> d))))
          gasKeywords)
       (static report @ ai report))"

text \<open>
  \<^verbatim>\<open>executeScanPipeline\<close>. The status updates made before an error stay; the error
  comes back as \<^const>\<open>Inl\<close> with the prefix of the \<^verbatim>\<open>catch\<close> block.
\<close>

definition executeScanPipeline ::
  "env \<Rightarrow> string \<Rightarrow> string \<Rightarrow> bool \<Rightarrow> string \<Rightarrow> string list \<Rightarrow> string \<Rightarrow> store
     \<Rightarrow> (string + scan_report) \<times> store" where
  "executeScanPipeline e scanId path withAI sev tools pipeline s =
     (let report =
            \<lparr>report_id = scanId, report_path = path,
             report_timestamp = now e Created div 1000, report_duration = 0,
             report_pipeline = pipeline, static = [], ai = [],
             metadata = \<lparr>tools_used = tools, ai_enabled = withAI, total_findings = 0,
                         risk_score = Num 0, gas_optimization_count = 0\<rparr>\<rparr>;
          s1 = updateScanStatus e RunningStatic scanId ''running''
                 ''Running static analysis...'' s
      in case runStaticAnalysis e path tools sev pipeline of
           Inl msg \<Rightarrow> (Inl (''Pipeline execution failed: '' @ msg), s1)
         | Inr staticResults \<Rightarrow>
             (let report1 = report\<lparr>static := staticResults\<rparr>;
                  s2 = (if withAI
                        then updateScanStatus e RunningAI scanId ''running''
                               ''Running AI analysis...'' s1
                        else s1);
                  report2 = (if withAI
                             then report1\<lparr>ai := runAIAnalysis e path pipeline sev\<rparr>
                             else report1);
                  s3 = updateScanStatus e Processing scanId ''running''
                         ''Processing results...'' s2;
                  report3 = report2\<lparr>metadata := (metadata report2)
                    \<lparr>total_findings := length (static report2) + length (ai report2)\<rparr>\<rparr>;
                  report4 = report3\<lparr>metadata := (metadata report3)
                    \<lparr>gas_optimization_count := countGasOptimizations report3\<rparr>\<rparr>
              in (Inr report4, s3)))"

section \<open>History ledger, report cache and the route\<close>

definition historyEntry :: "scan_report \<Rightarrow> history_entry" where
  "historyEntry report =
     \<lparr>entry_id = report_id report, entry_path = report_path report,
      entry_timestamp = report_timestamp report, entry_duration = report_duration report,
      findings_count = total_findings (metadata report),
      entry_risk_score = risk_score (metadata report), entry_status = ''completed'',
      entry_pipeline = report_pipeline report,
      entry_ai_enabled = ai_enabled (metadata report)\<rparr>"

text \<open>
  \<^verbatim>\<open>saveToHistory\<close>: a ledger that cannot be read counts as empty; the entry goes to
  the head (\<^verbatim>\<open>unshift\<close>), the list is cut to 100, and an error of \<^verbatim>\<open>mkdir\<close> or
  \<^verbatim>\<open>writeFile\<close> is logged and swallowed.
\<close>

definition saveToHistory :: "env \<Rightarrow> scan_report \<Rightarrow> store \<Rightarrow> store" where
  "saveToHistory e report s =
     (let history = (case history_file s of None \<Rightarrow> [] | Some h \<Rightarrow> h);
          history1 = historyEntry report # history;
          history2 = (if length history1 > 100 then take 100 history1 else history1)
      in if io_ok e History then s\<lparr>history_file := Some history2\<rparr> else s)"

definition cacheReport :: "env \<Rightarrow> string \<Rightarrow> scan_report \<Rightarrow> store \<Rightarrow> store" where
  "cacheReport e scanId report s =
     (if io_ok e Cache then s\<lparr>cache_files := (cache_files s)(scanId \<mapsto> report)\<rparr> else s)"

text \<open>
  The \<^verbatim>\<open>catch\<close> block of \<^verbatim>\<open>POST\<close>: the status update with \<^verbatim>\<open>error.message\<close>, then
  the response with \<^verbatim>\<open>error.message || 'Internal server error'\<close>,
  \<^verbatim>\<open>error.code || 'SCAN_FAILED'\<close> and the scan id.
\<close>

definition scan_failed :: "env \<Rightarrow> string \<Rightarrow> caught_error \<Rightarrow> store \<Rightarrow> response \<times> store" where
  "scan_failed e scanId err s =
     (Server_error
        (if error_message err = [] then ''Internal server error'' else error_message err)
        (case error_code err of
           None \<Rightarrow> ''SCAN_FAILED''
         | Some c \<Rightarrow> if c = [] then ''SCAN_FAILED'' else c)
        scanId,
      updateScanStatus e Failed scanId ''failed'' (error_message err) s)"

text \<open>
  \<^verbatim>\<open>POST\<close>. The scan id is the value of \<^verbatim>\<open>uuidv4()\<close>, drawn before anything else;
  the body is \<^const>\<open>Inl\<close> of the exception when \<^verbatim>\<open>request.json()\<close> or the
  destructuring throws. The exception of the pipeline is made by \<^verbatim>\<open>new Error\<close> and has
  no code. The three writes under \<^verbatim>\<open>Promise.all\<close> touch different files and never
  reject; they are taken one after the other.
\<close>

definition POST :: "env \<Rightarrow> string \<Rightarrow> caught_error + scan_request \<Rightarrow> store \<Rightarrow> response \<times> store" where
  "POST e scanId body s =
     (case body of
        Inl err \<Rightarrow> scan_failed e scanId err s
      | Inr req \<Rightarrow>
         (let withAI = (case includeAI req of None \<Rightarrow> True | Some b \<Rightarrow> b);
              sev = (case req_severity req of None \<Rightarrow> ''medium'' | Some v \<Rightarrow> v);
              tools = (case req_tools req of
                         None \<Rightarrow> [''slither'', ''mythril'', ''solhint'']
                       | Some ts \<Rightarrow> ts);
              pipeline = (case req_pipeline req of None \<Rightarrow> ''thorough'' | Some v \<Rightarrow> v)
          in case contractPath req of
               None \<Rightarrow> (Bad_request ''Contract path is required'' ''MISSING_PATH'', s)
             | Some path \<Rightarrow>
                 if path = [] then (Bad_request ''Contract path is required'' ''MISSING_PATH'', s)
                 else (case validateContractPath e path of
                         Invalid err \<Rightarrow> (Bad_request err ''INVALID_PATH'', s)
                       | Valid resolvedPath \<Rightarrow>
                          (let s1 = updateScanStatus e Initializing scanId ''running''
                                      ''Initializing scan pipeline...'' s
                           in case executeScanPipeline e scanId resolvedPath withAI sev tools
                                     pipeline s1 of
                                (Inl msg, s2) \<Rightarrow>
                                  scan_failed e scanId
                                    \<lparr>error_message = msg, error_code = None\<rparr> s2
                              | (Inr report, s2) \<Rightarrow>
                                 (let report1 = report\<lparr>report_duration := now e Finished - now e Start\<rparr>;
                                      report2 = report1\<lparr>metadata := (metadata report1)
                                        \<lparr>risk_score := calculateRiskScore report1\<rparr>\<rparr>;
                                      s3 = saveToHistory e report2 s2;
                                      s4 = cacheReport e scanId report2 s3;
                                      s5 = updateScanStatus e Completed scanId ''completed''
                                             ''Scan completed successfully'' s4
                                  in (Ok report2, s5))))))"

text \<open>The history route: the ledger, or \<^verbatim>\<open>[]\<close> when it cannot be read.\<close>

definition history_GET :: "store \<Rightarrow> history_entry list" where
  "history_GET s = (case history_file s of None \<Rightarrow> [] | Some h \<Rightarrow> h)"

text \<open>A sequence of appends to the ledger, each in its own environment.\<close>

definition appends :: "(env \<times> scan_report) list \<Rightarrow> store \<Rightarrow> store" where
  "appends calls s = foldl (\<lambda>s c. saveToHistory (fst c) (snd c) s) s calls"

section \<open>Analytics\<close>

subsection \<open>Scan trends\<close>

text \<open>
  The accumulator of one day in \<^verbatim>\<open>trends\<close> (fields \<^verbatim>\<open>date\<close>, \<^verbatim>\<open>scans\<close>, \<^verbatim>\<open>findings\<close>,
  \<^verbatim>\<open>riskScores\<close>) and an element of the result.
\<close>

record trend =
  trend_date :: string
  trend_scans :: nat
  trend_findings :: nat
  riskScores :: "int list"

record scan_trend =
  date :: string
  scans :: nat
  findings :: nat
  avgRiskScore :: int

datatype js_error = RangeError | TypeError

text \<open>
  \<^verbatim>\<open>new Date(t * 1000).toISOString()\<close> throws a \<^verbatim>\<open>RangeError\<close> unless the time value is
  within \<open>8.64e15\<close> milliseconds of the epoch. For a time in range the date part of the
  result, \<^verbatim>\<open>split('T')[0]\<close>, is a parameter \<open>isoDate\<close> of the embedding, from seconds to
  the date string. \<^verbatim>\<open>localeCompare\<close> is the order of \<^typ>\<open>string\<close>, by code units: the
  two agree on strings of the shape \<^verbatim>\<open>YYYY-MM-DD\<close>.
\<close>

definition valid_time :: "int \<Rightarrow> bool" where
  "valid_time t = (\<bar>t * 1000\<bar> \<le> 8640000000000000)"

text \<open>The shape \<^verbatim>\<open>YYYY-MM-DD\<close> of the date of a time in the years 0000 to 9999.\<close>

definition plain_date :: "string \<Rightarrow> bool" where
  "plain_date s =
     (length s = 10 \<and> s ! 4 = CHR ''-'' \<and> s ! 7 = CHR ''-''
      \<and> list_all is_digit (take 4 s @ take 2 (drop 5 s) @ drop 8 s))"

text \<open>\<^verbatim>\<open>scan.risk_score || 0\<close>.\<close>

definition risk_or_zero :: "history_entry \<Rightarrow> int" where
  "risk_or_zero scan = (case entry_risk_score scan of NaN \<Rightarrow> 0 | Num n \<Rightarrow> n)"

text \<open>The three updates of the day's accumulator.\<close>

definition count_scan :: "history_entry \<Rightarrow> trend \<Rightarrow> trend" where
  "count_scan scan t =
     t\<lparr>trend_scans := trend_scans t + 1,
       trend_findings := trend_findings t + findings_count scan,
       riskScores := riskScores t @ [risk_or_zero scan]\<rparr>"

text \<open>
  The body of the \<^verbatim>\<open>forEach\<close>. Where \<^verbatim>\<open>trends[date]\<close> is an inherited member, no
  accumulator is created and \<^verbatim>\<open>riskScores.push\<close> throws a \<^verbatim>\<open>TypeError\<close>.
\<close>

definition add_scan ::
  "(int \<Rightarrow> string) \<Rightarrow> (string \<times> trend) list \<Rightarrow> history_entry
     \<Rightarrow> js_error + (string \<times> trend) list" where
  "add_scan isoDate trends scan =
     (if \<not> valid_time (entry_timestamp scan) then Inl RangeError
      else (let day = isoDate (entry_timestamp scan)
            in case get trends day of
                 Inherited \<Rightarrow> Inl TypeError
               | Undefined \<Rightarrow>
                   Inr (trends @ [(day, count_scan scan
                          \<lparr>trend_date = day, trend_scans = 0, trend_findings = 0,
                           riskScores = []\<rparr>)])
               | Own t \<Rightarrow> Inr (AList.update day (count_scan scan t) trends)))"

fun scan_loop ::
  "(int \<Rightarrow> string) \<Rightarrow> (string \<times> trend) list \<Rightarrow> history_entry list
     \<Rightarrow> js_error + (string \<times> trend) list" where
  "scan_loop isoDate trends [] = Inr trends"
| "scan_loop isoDate trends (scan # rest) =
     (case add_scan isoDate trends scan of
        Inl err \<Rightarrow> Inl err
      | Inr trends' \<Rightarrow> scan_loop isoDate trends' rest)"

text \<open>\<^verbatim>\<open>Math.round(sum / length)\<close>, and 0 for no score.\<close>

definition average :: "int list \<Rightarrow> int" where
  "average rs =
     (if length rs > 0 then round (of_int (sum_list rs) / of_nat (length rs) :: rat) else 0)"

definition summarize :: "trend \<Rightarrow> scan_trend" where
  "summarize t =
     \<lparr>date = trend_date t, scans = trend_scans t, findings = trend_findings t,
      avgRiskScore = average (riskScores t)\<rparr>"

text \<open>\<^verbatim>\<open>calculateScanTrends\<close>: \<^verbatim>\<open>Object.values\<close>, \<^verbatim>\<open>map\<close>, \<^verbatim>\<open>sort\<close> and \<^verbatim>\<open>slice(-30)\<close>.\<close>

definition calculateScanTrends ::
  "(int \<Rightarrow> string) \<Rightarrow> history_entry list \<Rightarrow> js_error + scan_trend list" where
  "calculateScanTrends isoDate history =
     (case scan_loop isoDate [] history of
        Inl err \<Rightarrow> Inl err
      | Inr trends \<Rightarrow>
          (let sorted = sort_key date (map (\<lambda>p. summarize (snd p)) (entries trends))
           in Inr (drop (length sorted - 30) sorted)))"

text \<open>The accumulator of a day once the given entries have been counted.\<close>

definition day_trend :: "(int \<Rightarrow> string) \<Rightarrow> history_entry list \<Rightarrow> string \<Rightarrow> trend" where
  "day_trend isoDate history day =
     (let es = filter (\<lambda>e. isoDate (entry_timestamp e) = day) history
      in \<lparr>trend_date = day, trend_scans = length es,
          trend_findings = sum_list (map findings_count es),
          riskScores = map risk_or_zero es\<rparr>)"

subsection \<open>Scan trends as the specification words them\<close>

text \<open>
  One bucket per calendar date among the time stamps of the ledger, with the number of
  its entries, the sum of their findings and their rounded mean risk score; sorted by
  date; the 30 most recent.
\<close>

definition stated_bucket :: "(int \<Rightarrow> string) \<Rightarrow> history_entry list \<Rightarrow> string \<Rightarrow> scan_trend" where
  "stated_bucket isoDate history day =
     (let es = filter (\<lambda>e. isoDate (entry_timestamp e) = day) history
      in \<lparr>date = day, scans = length es, findings = sum_list (map findings_count es),
          avgRiskScore =
            round (of_int (sum_list (map risk_or_zero es)) / of_nat (length es) :: rat)\<rparr>)"

definition stated_scanTrends :: "(int \<Rightarrow> string) \<Rightarrow> history_entry list \<Rightarrow> scan_trend list" where
  "stated_scanTrends isoDate history =
     (let days = sorted_list_of_set (set (map (\<lambda>e. isoDate (entry_timestamp e)) history))
      in map (stated_bucket isoDate history) (drop (length days - 30) days))"

subsection \<open>Severity distribution and vulnerability clusters\<close>

text \<open>
  The value of a counter property: a number, or the string that \<^verbatim>\<open>+ 1\<close> makes of an
  inherited function or of a string.
\<close>

datatype tally = Count nat | Text

text \<open>\<^verbatim>\<open>obj[k] = (obj[k] || 0) + 1\<close>.\<close>

definition increment :: "(string \<times> tally) list \<Rightarrow> string \<Rightarrow> (string \<times> tally) list" where
  "increment obj k =
     (case get obj k of
        Own (Count n) \<Rightarrow> AList.update k (Count (n + 1)) obj
      | Own Text \<Rightarrow> obj
      | Undefined \<Rightarrow> obj @ [(k, Count 1)]
      | Inherited \<Rightarrow> if k = ''__proto__'' then obj else obj @ [(k, Text)])"

text \<open>An entry of \<^verbatim>\<open>vulnerabilities\<close>.\<close>

record cluster =
  cluster_count :: nat
  severities :: "string list"

text \<open>\<^verbatim>\<open>title.toLowerCase().replace(/[^a-z0-9]/g, ' ').trim()\<close>.\<close>

definition is_alnum :: "char \<Rightarrow> bool" where
  "is_alnum c =
     (let n = (of_char c :: nat) in (97 \<le> n \<and> n \<le> 122) \<or> (48 \<le> n \<and> n \<le> 57))"

definition cluster_key :: "string \<Rightarrow> string" where
  "cluster_key t = trim (map (\<lambda>c. if is_alnum c then c else CHR '' '') (toLowerCase t))"

text \<open>
  The \<^verbatim>\<open>forEach\<close> over the findings of one report, inside the \<^verbatim>\<open>try\<close>. Where
  \<^verbatim>\<open>vulnerabilities[key]\<close> is an inherited member (the key \<^verbatim>\<open>constructor\<close>), no cluster
  is created, \<^verbatim>\<open>severities.push\<close> throws a \<^verbatim>\<open>TypeError\<close>, and the \<^verbatim>\<open>catch\<close> goes on
  to the next scan: the loop ends there, with what it has written so far.
\<close>

fun findings_loop ::
  "(string \<times> tally) list \<times> (string \<times> cluster) list \<Rightarrow> finding list
     \<Rightarrow> (string \<times> tally) list \<times> (string \<times> cluster) list" where
  "findings_loop (tallies, vulns) [] = (tallies, vulns)"
| "findings_loop (tallies, vulns) (f # fs) =
     (let tallies' = increment tallies (severity f);
          key = cluster_key (title f)
      in case get vulns key of
           Inherited \<Rightarrow> (tallies', vulns)
         | Undefined \<Rightarrow>
             findings_loop
               (tallies', vulns @ [(key, \<lparr>cluster_count = 1, severities = [severity f]\<rparr>)]) fs
         | Own c \<Rightarrow>
             findings_loop
               (tallies', AList.update key
                  (c\<lparr>cluster_count := cluster_count c + 1,
                     severities := severities c @ [severity f]\<rparr>) vulns) fs)"

text \<open>
  One turn of the loop over the scans: the cache is a map from scan ids to reports,
  \<^const>\<open>None\<close> for a file that is missing or cannot be parsed.
\<close>

definition read_scan ::
  "(string \<rightharpoonup> scan_report) \<Rightarrow> (string \<times> tally) list \<times> (string \<times> cluster) list
     \<Rightarrow> history_entry \<Rightarrow> (string \<times> tally) list \<times> (string \<times> cluster) list" where
  "read_scan cache acc scan =
     (case cache (entry_id scan) of
        None \<Rightarrow> acc
      | Some report \<Rightarrow> findings_loop acc (static report @ ai report))"

text \<open>The title of a cluster: every word of the key with its first letter in upper case.\<close>

definition capitalize :: "string \<Rightarrow> string" where
  "capitalize w = (case w of [] \<Rightarrow> [] | c # cs \<Rightarrow> upper_char c # cs)"

definition titleCase :: "string \<Rightarrow> string" where
  "titleCase key = join '' '' (map capitalize (split CHR '' '' key))"

text \<open>
  \<^verbatim>\<open>getMostCommonSeverity\<close>. The comparator \<^verbatim>\<open>b - a\<close> of the sort is \<^verbatim>\<open>NaN\<close>, hence 0,
  whenever one side is a string. If a string stands among counts that differ, the
  comparator is not consistent and the language leaves the order to the implementation:
  the result is \<^const>\<open>None\<close>. If all counts are equal the sort, being stable, changes
  nothing. Otherwise the counts are sorted in descending order, the first key wins, and
  the empty key gives way to \<^verbatim>\<open>medium\<close>.
\<close>

definition first_key :: "(string \<times> tally) list \<Rightarrow> string" where
  "first_key es = (case es of [] \<Rightarrow> ''medium'' | p # _ \<Rightarrow> if fst p = [] then ''medium'' else fst p)"

definition numbers :: "(string \<times> tally) list \<Rightarrow> nat list" where
  "numbers es = concat (map (\<lambda>p. case snd p of Count n \<Rightarrow> [n] | Text \<Rightarrow> []) es)"

definition getMostCommonSeverity :: "string list \<Rightarrow> string option" where
  "getMostCommonSeverity sevs =
     (let es = entries (foldl increment [] sevs)
      in if list_ex (\<lambda>p. snd p = Text) es
         then (if list_all (\<lambda>n. n = hd (numbers es)) (numbers es)
               then Some (first_key es) else None)
         else Some (first_key
                (sort_key (\<lambda>p. case snd p of Count n \<Rightarrow> - int n | Text \<Rightarrow> 0) es)))"

text \<open>An element of \<^verbatim>\<open>topVulnerabilities\<close> (fields \<^verbatim>\<open>title\<close>, \<^verbatim>\<open>count\<close>, \<^verbatim>\<open>avgSeverity\<close>).\<close>

record vulnerability =
  vuln_title :: string
  vuln_count :: nat
  avgSeverity :: "string option"

record detailed =
  severityDistribution :: "(string \<times> tally) list"
  topVulnerabilities :: "vulnerability list"

text \<open>\<^verbatim>\<open>calculateDetailedAnalytics\<close>.\<close>

definition calculateDetailedAnalytics ::
  "(string \<rightharpoonup> scan_report) \<Rightarrow> history_entry list \<Rightarrow> detailed" where
  "calculateDetailedAnalytics cache history =
     (let acc = foldl (read_scan cache) ([], []) (take 50 history)
      in \<lparr>severityDistribution = fst acc,
          topVulnerabilities =
            take 10 (sort_key (\<lambda>v. - int (vuln_count v))
              (map (\<lambda>p. \<lparr>vuln_title = titleCase (fst p),
                          vuln_count = cluster_count (snd p),
                          avgSeverity = getMostCommonSeverity (severities (snd p))\<rparr>)
                   (entries (snd acc))))\<rparr>)"

subsection \<open>The findings that the detailed analytics count\<close>

text \<open>
  The reports that the loop over the scans reads: those that the cache holds for the
  first 50 entries of the ledger, in the order of the ledger.
\<close>

definition window_reports :: "(string \<rightharpoonup> scan_report) \<Rightarrow> history_entry list \<Rightarrow> scan_report list" where
  "window_reports cache history = List.map_filter (\<lambda>e. cache (entry_id e)) (take 50 history)"

text \<open>
  Of the findings of one report, those that enter the vulnerability clusters are the
  ones before the first finding whose key is the name of an inherited member; the
  severity tallies count that finding as well.
\<close>

definition clustered :: "finding list \<Rightarrow> finding list" where
  "clustered fs = takeWhile (\<lambda>f. \<not> inherited (cluster_key (title f))) fs"

definition tallied :: "finding list \<Rightarrow> finding list" where
  "tallied fs = take (Suc (length (clustered fs))) fs"

definition window_clustered :: "(string \<rightharpoonup> scan_report) \<Rightarrow> history_entry list \<Rightarrow> finding list" where
  "window_clustered cache history =
     concat (map (\<lambda>r. clustered (static r @ ai r)) (window_reports cache history))"

definition window_tallied :: "(string \<rightharpoonup> scan_report) \<Rightarrow> history_entry list \<Rightarrow> finding list" where
  "window_tallied cache history =
     concat (map (\<lambda>r. tallied (static r @ ai r)) (window_reports cache history))"

text \<open>
  The tally of a severity, the cluster of a key and its row in \<^verbatim>\<open>topVulnerabilities\<close>,
  over a list of findings.
\<close>

definition tally_of :: "finding list \<Rightarrow> string \<Rightarrow> tally option" where
  "tally_of fs sev =
     (let n = length (filter (\<lambda>f. severity f = sev) fs)
      in if n = 0 then None else Some (Count n))"

definition cluster_of :: "finding list \<Rightarrow> string \<Rightarrow> cluster" where
  "cluster_of fs key =
     (let members = filter (\<lambda>f. cluster_key (title f) = key) fs
      in \<lparr>cluster_count = length members, severities = map severity members\<rparr>)"

definition cluster_row :: "finding list \<Rightarrow> string \<Rightarrow> vulnerability" where
  "cluster_row fs key =
     \<lparr>vuln_title = titleCase key, vuln_count = cluster_count (cluster_of fs key),
      avgSeverity = getMostCommonSeverity (severities (cluster_of fs key))\<rparr>"

subsection \<open>The analytics route\<close>

text \<open>\<^verbatim>\<open>AnalyticsData\<close>, and the two answers of the route: the data, or the error (500).\<close>

record analytics = detailed +
  totalScans :: nat
  totalFindings :: nat
  averageRiskScore :: int
  toolUsage :: "(string \<times> nat) list"
  scanTrends :: "scan_trend list"

datatype analytics_response = Analytics analytics | Analytics_failed string

definition analytics_GET :: "(int \<Rightarrow> string) \<Rightarrow> store \<Rightarrow> analytics_response" where
  "analytics_GET isoDate s =
     (case history_file s of
        None \<Rightarrow>
          Analytics \<lparr>severityDistribution = [], topVulnerabilities = [], totalScans = 0,
                     totalFindings = 0, averageRiskScore = 0, toolUsage = [], scanTrends = []\<rparr>
      | Some history \<Rightarrow>
          (case calculateScanTrends isoDate history of
             Inl err \<Rightarrow> Analytics_failed ''Failed to load analytics''
           | Inr trends \<Rightarrow>
               (let detailedAnalytics = calculateDetailedAnalytics (cache_files s) history
                in Analytics
                     \<lparr>severityDistribution = severityDistribution detailedAnalytics,
                      topVulnerabilities = topVulnerabilities detailedAnalytics,
                      totalScans = length history,
                      totalFindings = sum_list (map findings_count history),
                      averageRiskScore = average (map risk_or_zero history),
                      toolUsage = [], scanTrends = trends\<rparr>)))"

section \<open>Sample inputs\<close>

definition sample_finding :: "string \<Rightarrow> string \<Rightarrow> rat option \<Rightarrow> finding" where
  "sample_finding sev ttl conf =
     \<lparr>tool = Some ''slither'', severity = sev, title = ttl, description = None,
      location = ''Vault.sol:12'', confidence = conf, reasoning = None,
      suggested_fix = None\<rparr>"

definition sample_report :: "finding list \<Rightarrow> finding list \<Rightarrow> scan_report" where
  "sample_report st a =
     \<lparr>report_id = ''scan-1'', report_path = ''/app/contracts/Vault.sol'',
      report_timestamp = 1754462806, report_duration = 0, report_pipeline = ''thorough'',
      static = st, ai = a,
      metadata = \<lparr>tools_used = [''slither''], ai_enabled = True,
                  total_findings = length st + length a, risk_score = Num 0,
                  gas_optimization_count = 0\<rparr>\<rparr>"

text \<open>
  An environment in which every call succeeds: the project lives in \<^verbatim>\<open>/app\<close>, the
  analyzer reports the given static findings and no AI finding.
\<close>

definition analyzer_env :: "finding list \<Rightarrow> env" where
  "analyzer_env fs =
     \<lparr>cwd = ''/app'',
      stat = (\<lambda>p. if p = ''/app/contracts/Vault.sol'' \<or> p = ''/tmp/app/x.sol''
                    \<or> p = ''/application/x.sol''
                  then File else Missing),
      now = (\<lambda>place. if place = Start then 1754462806000 else 1754462811000),
      io_ok = (\<lambda>place. True),
      exec = (\<lambda>command timeout. None),
      last_report = (\<lambda>place. Inr \<lparr>cli_static = Some fs, cli_ai = Some []\<rparr>)\<rparr>"

definition sample_env :: env where
  "sample_env =
     analyzer_env [sample_finding ''high'' ''Reentrancy'' None,
                   sample_finding ''medium'' ''Timestamp dependence'' None]"

definition sample_request :: "string \<Rightarrow> scan_request" where
  "sample_request p =
     \<lparr>contractPath = Some p, includeAI = None, req_severity = None, req_tools = None,
      req_pipeline = None\<rparr>"

definition empty_store :: store where
  "empty_store = \<lparr>status_files = Map.empty, cache_files = Map.empty, history_file = None\<rparr>"

text \<open>The report of a scan of \<^verbatim>\<open>contracts/Vault.sol\<close> in such an environment.\<close>

definition result_report :: "finding list \<Rightarrow> scan_report" where
  "result_report fs =
     \<lparr>report_id = ''scan-1'', report_path = ''/app/contracts/Vault.sol'',
      report_timestamp = 1754462811, report_duration = 5000, report_pipeline = ''thorough'',
      static = fs, ai = [],
      metadata = \<lparr>tools_used = [''slither'', ''mythril'', ''solhint''], ai_enabled = True,
                  total_findings = length fs,
                  risk_score = calculateRiskScore (sample_report fs []),
                  gas_optimization_count = countGasOptimizations (sample_report fs [])\<rparr>\<rparr>"

text \<open>The static analyzer exits with an error; in the second environment the last
  status write fails as well.\<close>

definition broken_analyzer_env :: env where
  "broken_analyzer_env =
     sample_env\<lparr>exec := (\<lambda>command timeout. Some ''Command failed: exit code 1'')\<rparr>"

definition failing_env :: env where
  "failing_env = broken_analyzer_env\<lparr>io_ok := (\<lambda>place. place \<noteq> Failed)\<rparr>"



text \<open>A ledger of one hundred entries, numbered by their time stamps 99 down to 0, and
  two further scans, numbered 100 and 101.\<close>

definition numbered_report :: "nat \<Rightarrow> scan_report" where
  "numbered_report i = (sample_report [] [])\<lparr>report_timestamp := int i\<rparr>"

definition full_store :: store where
  "full_store =
     empty_store\<lparr>history_file := Some (map (\<lambda>i. historyEntry (numbered_report i)) (rev [0..<100]))\<rparr>"

definition two_calls :: "(env \<times> scan_report) list" where
  "two_calls = [(sample_env, numbered_report 100), (sample_env, numbered_report 101)]"

text \<open>
  The UTC calendar date of a time in seconds, written \<^verbatim>\<open>YYYY-MM-DD\<close>, for the years
  0000 to 9999: the days since the epoch are counted in eras of 400 years that begin on
  1 March, then in years of the era, then in months that begin with March.
\<close>

definition digit :: "int \<Rightarrow> char" where
  "digit v = ''0123456789'' ! nat (v mod 10)"

definition era_day :: "int \<Rightarrow> int" where
  "era_day z = z mod 146097"

definition era_year :: "int \<Rightarrow> int" where
  "era_year doe = (doe - doe div 1460 + doe div 36524 - doe div 146096) div 365"

definition year_day :: "int \<Rightarrow> int" where
  "year_day doe = doe - (365 * era_year doe + era_year doe div 4 - era_year doe div 100)"

definition march_month :: "int \<Rightarrow> int" where
  "march_month doy = (5 * doy + 2) div 153"

definition sample_isoDate :: "int \<Rightarrow> string" where
  "sample_isoDate t =
     (let z = t div 86400 + 719468;
          mp = march_month (year_day (era_day z));
          d = year_day (era_day z) - (153 * mp + 2) div 5 + 1;
          m = (if mp < 10 then mp + 3 else mp - 9);
          y = era_year (era_day z) + z div 146097 * 400 + (if m \<le> 2 then 1 else 0)
      in [digit (y div 1000), digit (y div 100), digit (y div 10), digit y] @ ''-''
         @ [digit (m div 10), digit m] @ ''-'' @ [digit (d div 10), digit d])"

definition sample_entry :: "string \<Rightarrow> int \<Rightarrow> nat \<Rightarrow> int \<Rightarrow> history_entry" where
  "sample_entry i t n r =
     \<lparr>entry_id = i, entry_path = ''/app/contracts/Vault.sol'', entry_timestamp = t,
      entry_duration = 5000, findings_count = n, entry_risk_score = Num r,
      entry_status = ''completed'', entry_pipeline = ''thorough'', entry_ai_enabled = True\<rparr>"

text \<open>Three scans, newest first: two on 7 August 2025 and one on the day before.\<close>

definition sample_ledger :: "history_entry list" where
  "sample_ledger =
     [sample_entry ''scan-3'' 1754560000 3 4,
      sample_entry ''scan-2'' 1754550000 2 9,
      sample_entry ''scan-1'' 1754462806 2 9]"

text \<open>
  A cache that holds a report for the first scan only. Its second finding has the
  title \<^verbatim>\<open>constructor()\<close>.
\<close>

definition sample_cache :: "string \<rightharpoonup> scan_report" where
  "sample_cache =
     [''scan-1'' \<mapsto> sample_report
        [sample_finding ''high'' ''Reentrancy'' None,
         sample_finding ''medium'' ''constructor()'' None,
         sample_finding ''critical'' ''Reentrancy'' None] []]"

text \<open>
  A ledger of sixty scans with the ids \<^verbatim>\<open>s\<close>, \<^verbatim>\<open>ss\<close>, \<^verbatim>\<open>sss\<close> and so on, newest first.
  The cache holds a report for the fiftieth scan, the last one of the window, and a
  report for the fifty-first; the smaller cache holds the first of the two only.
\<close>

definition long_ledger :: "history_entry list" where
  "long_ledger = map (\<lambda>i. sample_entry (replicate (Suc i) CHR ''s'') 1754462806 1 6) [0..<60]"

definition window_cache :: "string \<rightharpoonup> scan_report" where
  "window_cache =
     [replicate 50 CHR ''s'' \<mapsto> sample_report [sample_finding ''high'' ''Reentrancy'' None] [],
      replicate 51 CHR ''s'' \<mapsto> sample_report [sample_finding ''low'' ''Unused variable'' None] []]"

definition inner_cache :: "string \<rightharpoonup> scan_report" where
  "inner_cache =
     [replicate 50 CHR ''s'' \<mapsto> sample_report [sample_finding ''high'' ''Reentrancy'' None] []]"

section \<open>Properties of the doubles\<close>

text \<open>
  Rounding to the nearest double is monotone, commutes with negation and keeps 0; these
  are the facts about the arithmetic that the properties of the scorer rest on.
\<close>

lemma round_half_even_of_int [simp]: "round_half_even (of_int n) = n"
  by (simp add: round_half_even_def)

lemma round_half_even_0 [simp]: "round_half_even 0 = 0"
  using round_half_even_of_int [of 0] by simp

lemma two_powi_shift: "(2::rat) powi (e + int k) = 2 ^ k * 2 powi e"
  by (simp add: power_int_add)

lemma round_half_even_range:
  "\<lfloor>x\<rfloor> \<le> round_half_even x \<and> round_half_even x \<le> \<lfloor>x\<rfloor> + 1"
  by (simp add: round_half_even_def Let_def)

lemma round_half_even_mono:
  assumes "x \<le> y"
  shows "round_half_even x \<le> round_half_even y"
proof (cases "\<lfloor>x\<rfloor> = \<lfloor>y\<rfloor>")
  case True
  with assms show ?thesis
    by (simp add: round_half_even_def Let_def)
next
  case False
  with assms have "\<lfloor>x\<rfloor> + 1 \<le> \<lfloor>y\<rfloor>"
    using floor_mono [OF assms] by linarith
  with round_half_even_range [of x] round_half_even_range [of y] show ?thesis
    by linarith
qed

lemma exponent_bounds:
  assumes "0 < x"
  shows "2 powi exponent x \<le> x \<and> x < 2 powi (exponent x + 1)"
proof (cases "1 \<le> x")
  case True
  define n where "n = \<lfloor>x\<rfloor>"
  have n: "0 < n" using True by (simp add: n_def)
  have b: "1 \<le> bitlen n" using n bitlen_eq_zero_iff [of n] bitlen_nonneg [of n] by linarith
  have e: "exponent x = bitlen n - 1" using True by (simp add: exponent_def n_def)
  from bitlen_bounds [OF n] have lo: "2 ^ nat (bitlen n - 1) \<le> n" and hi: "n < 2 ^ nat (bitlen n)"
    by simp_all
  have "(2::rat) powi (bitlen n - 1) = of_int (2 ^ nat (bitlen n - 1))"
    using b by (simp add: power_int_def)
  also have "\<dots> \<le> of_int n" using lo by (simp only: of_int_le_iff)
  also have "\<dots> \<le> x" by (simp add: n_def)
  finally have 1: "2 powi exponent x \<le> x" by (simp add: e)
  from hi have "n + 1 \<le> 2 ^ nat (bitlen n)" by simp
  then have "(of_int (n + 1) :: rat) \<le> of_int (2 ^ nat (bitlen n))" by (simp only: of_int_le_iff)
  moreover have "x < of_int (n + 1)" unfolding n_def by linarith
  moreover have "(2::rat) powi (bitlen n) = of_int (2 ^ nat (bitlen n))"
    using b by (simp add: power_int_def)
  ultimately have "x < 2 powi (exponent x + 1)" by (simp add: e)
  with 1 show ?thesis ..
next
  case False
  define y where "y = 1 / x"
  define m where "m = \<lceil>y\<rceil> - 1"
  have y: "1 < y" using False assms by (simp add: y_def)
  then have "1 < \<lceil>y\<rceil>" by (simp add: less_ceiling_iff)
  then have m: "0 < m" by (simp add: m_def)
  have b: "1 \<le> bitlen m" using m bitlen_eq_zero_iff [of m] bitlen_nonneg [of m] by linarith
  have e: "exponent x = - bitlen m" using False by (simp add: exponent_def m_def y_def)
  from bitlen_bounds [OF m] have lo: "2 ^ nat (bitlen m - 1) \<le> m" and hi: "m < 2 ^ nat (bitlen m)"
    by simp_all
  have p: "(2::rat) powi (- bitlen m) = 1 / of_int (2 ^ nat (bitlen m))"
    using b by (simp add: power_int_def field_simps power_inverse)
  have p': "(2::rat) powi (exponent x + 1) = 1 / of_int (2 ^ nat (bitlen m - 1))"
  proof -
    have "exponent x + 1 = - (bitlen m - 1)" by (simp add: e)
    moreover have "(2::rat) powi (- (bitlen m - 1)) = 1 / 2 powi (bitlen m - 1)"
      by (rule power_int_minus_divide)
    moreover have "(2::rat) powi (bitlen m - 1) = of_int (2 ^ nat (bitlen m - 1))"
      using b by (simp add: power_int_def)
    ultimately show ?thesis by (simp only:)
  qed
  have x: "1 / y = x" by (simp add: y_def)
  from hi have "m + 1 \<le> 2 ^ nat (bitlen m)" by simp
  then have "(of_int (m + 1) :: rat) \<le> of_int (2 ^ nat (bitlen m))" by (simp only: of_int_le_iff)
  moreover have "y \<le> of_int (m + 1)" by (simp add: m_def)
  ultimately have "y \<le> of_int (2 ^ nat (bitlen m))" by linarith
  then have "1 / of_int (2 ^ nat (bitlen m)) \<le> 1 / y"
    using y by (intro divide_left_mono) (simp_all)
  then have 1: "2 powi exponent x \<le> x" using assms by (simp add: e p y_def)
  have "of_int m < y" unfolding m_def by linarith
  moreover have "(of_int (2 ^ nat (bitlen m - 1)) :: rat) \<le> of_int m"
    using lo by (simp only: of_int_le_iff)
  ultimately have lt: "of_int (2 ^ nat (bitlen m - 1)) < y" by linarith
  have "1 / y < 1 / of_int (2 ^ nat (bitlen m - 1))"
    using lt y by (intro divide_strict_left_mono) simp_all
  then have "x < 2 powi (exponent x + 1)" by (simp only: p' x)
  with 1 show ?thesis ..
qed

lemma exponent_mono:
  assumes "0 < x" and "x \<le> y"
  shows "exponent x \<le> exponent y"
proof (rule ccontr)
  assume "\<not> exponent x \<le> exponent y"
  then have "exponent y + 1 \<le> exponent x" by simp
  then have "(2::rat) powi (exponent y + 1) \<le> 2 powi exponent x"
    by (intro power_int_increasing) simp_all
  moreover have "2 powi exponent x \<le> x" using exponent_bounds [OF assms(1)] ..
  moreover have "y < 2 powi (exponent y + 1)" using exponent_bounds [of y] assms by simp
  ultimately show False using assms(2) by linarith
qed

lemma quantum_pos: "0 < quantum x"
  by (simp add: quantum_def)

lemma quantum_abs [simp]: "quantum \<bar>x\<bar> = quantum x"
  by (simp add: quantum_def)

lemma quantum_minus [simp]: "quantum (- x) = quantum x"
  by (simp add: quantum_def)

lemma nearest_double_minus: "nearest_double (- x) = - nearest_double x"
  by (simp add: nearest_double_def sgn_minus)

lemma nearest_double_0 [simp]: "nearest_double 0 = 0"
  by (simp add: nearest_double_def)

lemma nearest_double_pos:
  "0 < x \<Longrightarrow> nearest_double x = of_int (round_half_even (x / quantum x)) * quantum x"
  by (simp add: nearest_double_def)

lemma nearest_double_upper:
  assumes "0 < x"
  shows "nearest_double x \<le> 2 powi (max (exponent x) (- 1022) + 1)"
proof -
  let ?E = "max (exponent x) (- 1022)"
  have q: "quantum x = 2 powi (?E - 52)" using assms by (simp add: quantum_def)
  have "x < 2 powi (exponent x + 1)" using exponent_bounds [OF assms] ..
  also have "\<dots> \<le> 2 powi (?E + 1)" by (intro power_int_increasing) simp_all
  finally have "x < 2 powi (?E + 1)" .
  moreover have s: "(2::rat) powi (?E + 1) = 2 ^ 53 * 2 powi (?E - 52)"
  proof -
    have "?E + 1 = ?E - 52 + int 53" by simp
    then show ?thesis by (simp only: two_powi_shift)
  qed
  ultimately have "x / quantum x < 2 ^ 53"
    using quantum_pos [of x] by (simp add: q pos_divide_less_eq)
  then have "x / quantum x \<le> of_int (2 ^ 53)" by simp
  then have "round_half_even (x / quantum x) \<le> round_half_even (of_int (2 ^ 53))"
    by (rule round_half_even_mono)
  then have "round_half_even (x / quantum x) \<le> 2 ^ 53" by (simp only: round_half_even_of_int)
  then have "(of_int (round_half_even (x / quantum x)) :: rat) \<le> of_int (2 ^ 53)"
    by (simp only: of_int_le_iff)
  then have "of_int (round_half_even (x / quantum x)) * quantum x \<le> of_int (2 ^ 53) * quantum x"
    using quantum_pos [of x] by (intro mult_right_mono) simp_all
  also have "\<dots> = 2 powi (?E + 1)"
    by (simp add: q s)
  finally show ?thesis using assms by (simp add: nearest_double_pos)
qed

lemma nearest_double_lower:
  assumes "0 < x" and "- 1022 \<le> exponent x"
  shows "2 powi exponent x \<le> nearest_double x"
proof -
  let ?E = "exponent x"
  have q: "quantum x = 2 powi (?E - 52)" using assms by (simp add: quantum_def max_def)
  have "2 powi ?E \<le> x" using exponent_bounds [OF assms(1)] ..
  moreover have s: "(2::rat) powi ?E = 2 ^ 52 * 2 powi (?E - 52)"
  proof -
    have "?E = ?E - 52 + int 52" by simp
    then show ?thesis by (metis two_powi_shift)
  qed
  ultimately have "2 ^ 52 \<le> x / quantum x"
    using quantum_pos [of x] by (simp add: q pos_le_divide_eq)
  then have "of_int (2 ^ 52) \<le> x / quantum x" by simp
  then have "round_half_even (of_int (2 ^ 52)) \<le> round_half_even (x / quantum x)"
    by (rule round_half_even_mono)
  then have "2 ^ 52 \<le> round_half_even (x / quantum x)" by (simp only: round_half_even_of_int)
  then have "(of_int (2 ^ 52) :: rat) \<le> of_int (round_half_even (x / quantum x))"
    by (simp only: of_int_le_iff)
  then have "of_int (2 ^ 52) * quantum x \<le> of_int (round_half_even (x / quantum x)) * quantum x"
    using quantum_pos [of x] by (intro mult_right_mono) simp_all
  moreover have "of_int (2 ^ 52) * quantum x = 2 powi ?E"
    by (simp add: q s)
  ultimately show ?thesis using assms by (simp add: nearest_double_pos)
qed

lemma nearest_double_nonneg:
  assumes "0 \<le> x"
  shows "0 \<le> nearest_double x"
proof (cases "x = 0")
  case False
  with assms have x: "0 < x" by simp
  have "0 \<le> x / quantum x" using x quantum_pos [of x] by simp
  then have "round_half_even (of_int 0) \<le> round_half_even (x / quantum x)"
    by (intro round_half_even_mono) simp
  then have "0 \<le> round_half_even (x / quantum x)" by simp
  then show ?thesis using x quantum_pos [of x] by (simp add: nearest_double_pos)
qed simp

lemma nearest_double_mono_pos:
  assumes "0 < x" and "x \<le> y"
  shows "nearest_double x \<le> nearest_double y"
proof -
  let ?Ex = "max (exponent x) (- 1022)" and ?Ey = "max (exponent y) (- 1022)"
  have y: "0 < y" using assms by simp
  have le: "?Ex \<le> ?Ey" using exponent_mono [OF assms] by simp
  show ?thesis
  proof (cases "?Ex = ?Ey")
    case True
    then have q: "quantum y = quantum x" using assms y by (simp add: quantum_def)
    have "x / quantum x \<le> y / quantum x"
      using assms(2) quantum_pos [of x] by (simp add: divide_right_mono)
    then have "round_half_even (x / quantum x) \<le> round_half_even (y / quantum x)"
      by (rule round_half_even_mono)
    then have "(of_int (round_half_even (x / quantum x)) :: rat)
        \<le> of_int (round_half_even (y / quantum x))"
      by (simp only: of_int_le_iff)
    then have "of_int (round_half_even (x / quantum x)) * quantum x
        \<le> of_int (round_half_even (y / quantum x)) * quantum x"
      using quantum_pos [of x] by (intro mult_right_mono) simp_all
    then show ?thesis using assms(1) y by (simp add: nearest_double_pos q)
  next
    case False
    with le have lt: "?Ex + 1 \<le> ?Ey" by simp
    then have ey: "- 1022 \<le> exponent y" "?Ey = exponent y" by (simp_all add: max_def split: if_splits)
    have "nearest_double x \<le> 2 powi (?Ex + 1)" using assms(1) by (rule nearest_double_upper)
    also have "\<dots> \<le> 2 powi ?Ey" using lt by (intro power_int_increasing) simp_all
    also have "\<dots> = 2 powi exponent y" by (simp only: ey(2))
    also have "\<dots> \<le> nearest_double y" using y ey(1) by (rule nearest_double_lower)
    finally show ?thesis .
  qed
qed

lemma nearest_double_mono:
  assumes "x \<le> y"
  shows "nearest_double x \<le> nearest_double y"
proof -
  consider "0 < x" | "x \<le> 0" "0 \<le> y" | "y < 0" by linarith
  then show ?thesis
  proof cases
    case 1
    then show ?thesis using assms by (rule nearest_double_mono_pos)
  next
    case 2
    have "nearest_double x \<le> 0"
      using nearest_double_nonneg [of "- x"] 2(1) by (simp add: nearest_double_minus)
    also have "0 \<le> nearest_double y" using 2(2) by (rule nearest_double_nonneg)
    finally show ?thesis .
  next
    case 3
    then have "0 < - y" "- y \<le> - x" using assms by simp_all
    then have "nearest_double (- y) \<le> nearest_double (- x)" by (rule nearest_double_mono_pos)
    then show ?thesis by (simp add: nearest_double_minus)
  qed
qed

section \<open>Properties of the risk scorer\<close>

lemma weight_canonical:
  "sev \<in> set canonical_severities \<Longrightarrow> weight sev = Num (table_weight sev)"
  by (auto simp: canonical_severities_def weight_def get_def weights_def table_weight_def)

lemma foldl_add_contribution_NaN:
  "foldl add_contribution NaN fs = NaN"
  by (induction fs) (simp_all add: add_contribution_def)

lemma confidence_or_default_nonneg:
  "(\<forall>c. confidence f = Some c \<longrightarrow> 0 \<le> c) \<Longrightarrow> 0 \<le> confidence_or_default f"
  by (simp add: confidence_or_default_def nearest_double_nonneg split: option.splits)

lemma add_contribution_Num:
  "weight (severity f) = Num w \<Longrightarrow>
   add_contribution (Num s) f
     = Num (nearest_double (s + nearest_double (w * confidence_or_default f)))"
  by (simp add: add_contribution_def)

lemma add_contribution_NaN:
  "weight (severity f) = NaN \<Longrightarrow> add_contribution score f = NaN"
  by (simp add: add_contribution_def split: number.splits)

lemma foldl_add_contribution_mono:
  assumes "s \<le> s'"
  shows "(\<exists>k k'. foldl add_contribution (Num s) fs = Num k
            \<and> foldl add_contribution (Num s') fs = Num k' \<and> k \<le> k')
         \<or> (foldl add_contribution (Num s) fs = NaN \<and> foldl add_contribution (Num s') fs = NaN)"
  using assms
proof (induction fs arbitrary: s s')
  case Nil
  then show ?case by simp
next
  case (Cons f fs)
  show ?case
  proof (cases "weight (severity f)")
    case NaN
    then show ?thesis
      by (simp add: add_contribution_NaN foldl_add_contribution_NaN)
  next
    case (Num w)
    let ?t = "nearest_double (w * confidence_or_default f)"
    have "nearest_double (s + ?t) \<le> nearest_double (s' + ?t)"
      using Cons.prems by (intro nearest_double_mono) simp
    from Cons.IH [OF this] show ?thesis
      by (simp add: add_contribution_Num [OF Num])
  qed
qed

lemma severity_rank_weight:
  assumes "severity_rank sev = Some a" and "severity_rank sev' = Some b" and "a \<le> b"
  shows "weight sev = Num (table_weight sev) \<and> weight sev' = Num (table_weight sev')
         \<and> table_weight sev \<le> table_weight sev'"
proof -
  have c: "sev \<in> set canonical_severities" "sev' \<in> set canonical_severities"
    using assms(1,2)
    by (auto simp: severity_rank_def canonical_severities_def split: if_splits)
  have "table_weight sev \<le> table_weight sev'"
    using assms by (auto simp: severity_rank_def table_weight_def split: if_splits)
  with c show ?thesis by (simp add: weight_canonical)
qed

text \<open>
  The products and the sum are those of the doubles: a high finding of confidence 0.7
  and a low one of confidence 0.3 give \<open>4.8999999999999995 + 0.6\<close>, which is the double
  \<open>5.499999999999999\<close> and rounds to 5, where the exact sum 5.5 rounds to 6.
\<close>

lemma risk_score_in_doubles:
  "calculateRiskScore (sample_report [sample_finding ''high'' ''Reentrancy'' (Some (7/10)),
                                      sample_finding ''low'' ''Unused variable'' (Some (3/10))] [])
     = Num 5
   \<and> stated_score [sample_finding ''high'' ''Reentrancy'' (Some (7/10)),
                    sample_finding ''low'' ''Unused variable'' (Some (3/10))] = 6"
  by code_simp

subsection \<open>The default confidence\<close>

text \<open>
  Claim C1 fails on the code. The claim gives the default confidence 0.8 to a finding
  whose confidence is absent; the code reads \<^verbatim>\<open>finding.confidence || 0.8\<close> and gives it
  to a finding whose confidence is present and 0 as well. A report with one critical
  finding of confidence 0 has the risk score 8, where the sum of weight times confidence
  that the claim states is 0.
\<close>

theorem risk_score_zero_confidence:
  "confidence (sample_finding ''critical'' ''Reentrancy'' (Some 0)) = Some 0
   \<and> calculateRiskScore (sample_report [sample_finding ''critical'' ''Reentrancy'' (Some 0)] [])
       = Num 8
   \<and> stated_score [sample_finding ''critical'' ''Reentrancy'' (Some 0)] = 0"
proof -
  have "confidence (sample_finding ''critical'' ''Reentrancy'' (Some 0)) = Some 0"
    by (simp add: sample_finding_def)
  moreover have "calculateRiskScore
      (sample_report [sample_finding ''critical'' ''Reentrancy'' (Some 0)] []) = Num 8"
    by code_simp
  moreover have "stated_score [sample_finding ''critical'' ''Reentrancy'' (Some 0)] = 0"
    by code_simp
  ultimately show ?thesis by simp
qed

subsection \<open>Monotonicity in the severity of one finding\<close>

text \<open>
  Claim C6. Take any report and any one of its findings whose confidence is absent or
  not negative, and raise the severity of that finding in the canonical order
  \<open>info < low < medium < high < critical\<close>, all other fields and all other findings
  being the same: the risk score does not decrease. (A score that is \<^verbatim>\<open>NaN\<close>, because
  of another finding, stays \<^verbatim>\<open>NaN\<close>.)
\<close>

theorem risk_score_monotone_in_severity:
  assumes "static r @ ai r = pre @ f # post"
    and "static r' @ ai r' = pre @ f\<lparr>severity := sev'\<rparr> # post"
    and "severity_rank (severity f) = Some a"
    and "severity_rank sev' = Some b"
    and "a \<le> b"
    and "\<forall>c. confidence f = Some c \<longrightarrow> 0 \<le> c"
  shows "(\<exists>k k'. calculateRiskScore r = Num k \<and> calculateRiskScore r' = Num k' \<and> k \<le> k')
         \<or> (calculateRiskScore r = NaN \<and> calculateRiskScore r' = NaN)"
proof -
  let ?f' = "f\<lparr>severity := sev'\<rparr>"
  let ?c = "confidence_or_default f"
  let ?w = "table_weight (severity f)" and ?w' = "table_weight sev'"
  note w = severity_rank_weight [OF assms(3,4,5)]
  have conf: "confidence_or_default ?f' = ?c"
    by (simp add: confidence_or_default_def)
  have "0 \<le> ?c"
    using assms(6) by (rule confidence_or_default_nonneg)
  then have "?w * ?c \<le> ?w' * ?c"
    using w by (simp add: mult_right_mono)
  then have product: "nearest_double (?w * ?c) \<le> nearest_double (?w' * ?c)"
    by (rule nearest_double_mono)
  have r: "calculateRiskScore r =
      (case foldl add_contribution (add_contribution (foldl add_contribution (Num 0) pre) f) post of
         NaN \<Rightarrow> NaN | Num score \<Rightarrow> Num (min (round score) 100))"
    unfolding calculateRiskScore_def assms(1) by simp
  have r': "calculateRiskScore r' =
      (case foldl add_contribution (add_contribution (foldl add_contribution (Num 0) pre) ?f') post of
         NaN \<Rightarrow> NaN | Num score \<Rightarrow> Num (min (round score) 100))"
    unfolding calculateRiskScore_def assms(2) by simp
  show ?thesis
  proof (cases "foldl add_contribution (Num 0) pre")
    case NaN
    then show ?thesis
      unfolding r r' by (simp add: add_contribution_def foldl_add_contribution_NaN)
  next
    case (Num p)
    let ?t = "nearest_double (p + nearest_double (?w * ?c))"
    let ?t' = "nearest_double (p + nearest_double (?w' * ?c))"
    have t: "add_contribution (Num p) f = Num ?t"
      using w by (simp add: add_contribution_Num)
    have t': "add_contribution (Num p) ?f' = Num ?t'"
      using w by (simp add: add_contribution_Num conf)
    have "?t \<le> ?t'"
      using product by (intro nearest_double_mono) simp
    from foldl_add_contribution_mono [OF this, of post] show ?thesis
    proof
      assume "\<exists>k k'. foldl add_contribution (Num ?t) post = Num k
          \<and> foldl add_contribution (Num ?t') post = Num k' \<and> k \<le> k'"
      then obtain k k' where k: "foldl add_contribution (Num ?t) post = Num k"
        "foldl add_contribution (Num ?t') post = Num k'" "k \<le> k'"
        by blast
      from k(3) have "min (round k) 100 \<le> min (round k') 100"
        by (intro min.mono round_mono) simp_all
      then show ?thesis
        unfolding r r' Num t t' k(1,2) by simp
    next
      assume "foldl add_contribution (Num ?t) post = NaN
          \<and> foldl add_contribution (Num ?t') post = NaN"
      then show ?thesis
        unfolding r r' Num t t' by simp
    qed
  qed
qed

theorem risk_score_monotone_in_severity_witness:
  "static (sample_report [sample_finding ''low'' ''Reentrancy'' (Some (1/2))] [])
     @ ai (sample_report [sample_finding ''low'' ''Reentrancy'' (Some (1/2))] [])
     = [] @ sample_finding ''low'' ''Reentrancy'' (Some (1/2)) # []
   \<and> severity_rank (severity (sample_finding ''low'' ''Reentrancy'' (Some (1/2)))) = Some 1
   \<and> severity_rank ''critical'' = Some 4
   \<and> calculateRiskScore (sample_report [sample_finding ''low'' ''Reentrancy'' (Some (1/2))] [])
       = Num 1
   \<and> calculateRiskScore (sample_report [sample_finding ''critical'' ''Reentrancy'' (Some (1/2))] [])
       = Num 5"
proof -
  let ?f = "sample_finding ''low'' ''Reentrancy'' (Some (1/2))"
  let ?r = "sample_report [?f] []"
  let ?r' = "sample_report [sample_finding ''critical'' ''Reentrancy'' (Some (1/2))] []"
  have h1: "static ?r @ ai ?r = [] @ ?f # []"
    by (simp add: sample_report_def)
  have h2: "static ?r' @ ai ?r' = [] @ ?f\<lparr>severity := ''critical''\<rparr> # []"
    by (simp add: sample_report_def sample_finding_def)
  have h3: "severity_rank (severity ?f) = Some 1"
    by (simp add: sample_finding_def severity_rank_def)
  have h4: "severity_rank ''critical'' = Some 4"
    by (simp add: severity_rank_def)
  have h5: "(1::nat) \<le> 4" by simp
  have h6: "\<forall>c. confidence ?f = Some c \<longrightarrow> 0 \<le> c"
    by (simp add: sample_finding_def)
  have v: "calculateRiskScore ?r = Num 1" "calculateRiskScore ?r' = Num 5"
    by code_simp+
  from risk_score_monotone_in_severity [OF h1 h2 h3 h4 h5 h6] v h1 h3 h4
  show ?thesis by simp
qed

section \<open>Properties of the scan route\<close>

lemma history_file_updateScanStatus [simp]:
  "history_file (updateScanStatus e place scanId status message s) = history_file s"
  by (simp add: updateScanStatus_def)

lemma history_file_cacheReport [simp]:
  "history_file (cacheReport e scanId report s) = history_file s"
  by (simp add: cacheReport_def)

lemma history_file_saveToHistory:
  "history_file (saveToHistory e report s) =
     (if io_ok e History then Some (take 100 (historyEntry report # history_GET s))
      else history_file s)"
  by (simp add: saveToHistory_def history_GET_def Let_def)

lemma history_GET_saveToHistory:
  "history_GET (saveToHistory e report s) =
     (if io_ok e History then take 100 (historyEntry report # history_GET s)
      else history_GET s)"
  by (simp add: history_file_saveToHistory history_GET_def)

lemma history_file_executeScanPipeline:
  "history_file (snd (executeScanPipeline e scanId path withAI sev tools pipeline s))
     = history_file s"
  by (simp add: executeScanPipeline_def Let_def split: sum.splits)

text \<open>
  The status record of a scan once \<^verbatim>\<open>running\<close> updates have been made: the record from
  before, or a \<^verbatim>\<open>running\<close> record.
\<close>

lemma updateScanStatus_running:
  assumes "status_files s1 scanId = status_files s scanId
           \<or> (\<exists>m t. status_files s1 scanId =
                  Some \<lparr>st_scanId = scanId, st_status = ''running'', st_message = m,
                        st_timestamp = t\<rparr>)"
  shows "status_files (updateScanStatus e place scanId ''running'' msg s1) scanId
           = status_files s scanId
         \<or> (\<exists>m t. status_files (updateScanStatus e place scanId ''running'' msg s1) scanId =
                Some \<lparr>st_scanId = scanId, st_status = ''running'', st_message = m,
                      st_timestamp = t\<rparr>)"
  using assms by (auto simp: updateScanStatus_def)

lemma executeScanPipeline_running:
  assumes "status_files s1 scanId = status_files s scanId
           \<or> (\<exists>m t. status_files s1 scanId =
                  Some \<lparr>st_scanId = scanId, st_status = ''running'', st_message = m,
                        st_timestamp = t\<rparr>)"
  shows "status_files (snd (executeScanPipeline e scanId path withAI sev tools pipeline s1)) scanId
           = status_files s scanId
         \<or> (\<exists>m t. status_files
                  (snd (executeScanPipeline e scanId path withAI sev tools pipeline s1)) scanId =
                Some \<lparr>st_scanId = scanId, st_status = ''running'', st_message = m,
                      st_timestamp = t\<rparr>)"
proof -
  let ?s2 = "updateScanStatus e RunningStatic scanId ''running'' ''Running static analysis...'' s1"
  let ?s3 = "if withAI
             then updateScanStatus e RunningAI scanId ''running'' ''Running AI analysis...'' ?s2
             else ?s2"
  let ?s4 = "updateScanStatus e Processing scanId ''running'' ''Processing results...'' ?s3"
  note r2 = updateScanStatus_running [OF assms, of e RunningStatic "''Running static analysis...''"]
  have r3: "status_files ?s3 scanId = status_files s scanId
      \<or> (\<exists>m t. status_files ?s3 scanId =
             Some \<lparr>st_scanId = scanId, st_status = ''running'', st_message = m,
                   st_timestamp = t\<rparr>)"
    using r2 updateScanStatus_running [OF r2, of e RunningAI "''Running AI analysis...''"]
    by (cases withAI) simp_all
  note r4 = updateScanStatus_running [OF r3, of e Processing "''Processing results...''"]
  have "snd (executeScanPipeline e scanId path withAI sev tools pipeline s1) = ?s2
      \<or> snd (executeScanPipeline e scanId path withAI sev tools pipeline s1) = ?s4"
    by (simp add: executeScanPipeline_def Let_def split: sum.splits)
  with r2 r4 show ?thesis by metis
qed

text \<open>The three ways in which \<^const>\<open>POST\<close> ends.\<close>

lemma POST_cases:
  assumes "POST e scanId body s = (resp, s')"
  shows "(\<exists>x s0. scan_failed e scanId x s0 = (resp, s') \<and> history_file s0 = history_file s
            \<and> (body = Inl x \<or> (\<exists>req. body = Inr req) \<and> error_code x = None)
            \<and> (status_files s0 scanId = status_files s scanId
                 \<or> (\<exists>m t. status_files s0 scanId =
                        Some \<lparr>st_scanId = scanId, st_status = ''running'', st_message = m,
                              st_timestamp = t\<rparr>)))
       \<or> (\<exists>err code. resp = Bad_request err code \<and> s' = s)
       \<or> (\<exists>report s2. resp = Ok report \<and> history_file s2 = history_file s
            \<and> s' = updateScanStatus e Completed scanId ''completed''
                      ''Scan completed successfully''
                      (cacheReport e scanId report (saveToHistory e report s2)))"
proof (cases body)
  case (Inl x)
  with assms have "scan_failed e scanId x s = (resp, s')"
    by (simp add: POST_def)
  with Inl show ?thesis by blast
next
  case (Inr req)
  show ?thesis
  proof (cases "contractPath req")
    case None
    with Inr assms have "resp = Bad_request ''Contract path is required'' ''MISSING_PATH'' \<and> s' = s"
      by (auto simp: POST_def Let_def)
    then show ?thesis by blast
  next
    case (Some path)
    show ?thesis
    proof (cases "path = []")
      case True
      with Some Inr assms
      have "resp = Bad_request ''Contract path is required'' ''MISSING_PATH'' \<and> s' = s"
        by (auto simp: POST_def Let_def)
      then show ?thesis by blast
    next
      case False
      show ?thesis
      proof (cases "validateContractPath e path")
        case (Invalid err)
        with False Some Inr assms have "resp = Bad_request err ''INVALID_PATH'' \<and> s' = s"
          by (auto simp: POST_def Let_def)
        then show ?thesis by blast
      next
        case (Valid resolvedPath)
        let ?s1 = "updateScanStatus e Initializing scanId ''running''
                     ''Initializing scan pipeline...'' s"
        let ?withAI = "case includeAI req of None \<Rightarrow> True | Some b \<Rightarrow> b"
        let ?sev = "case req_severity req of None \<Rightarrow> ''medium'' | Some v \<Rightarrow> v"
        let ?tools = "case req_tools req of
                         None \<Rightarrow> [''slither'', ''mythril'', ''solhint'']
                       | Some ts \<Rightarrow> ts"
        let ?pipeline = "case req_pipeline req of None \<Rightarrow> ''thorough'' | Some v \<Rightarrow> v"
        obtain out s2 where run:
          "executeScanPipeline e scanId resolvedPath ?withAI ?sev ?tools ?pipeline ?s1 = (out, s2)"
          by (cases "executeScanPipeline e scanId resolvedPath ?withAI ?sev ?tools ?pipeline ?s1")
        have frame: "history_file s2 = history_file s"
          using history_file_executeScanPipeline
            [of e scanId resolvedPath ?withAI ?sev ?tools ?pipeline ?s1] run
          by simp
        have "status_files ?s1 scanId = status_files s scanId
            \<or> (\<exists>m t. status_files ?s1 scanId =
                   Some \<lparr>st_scanId = scanId, st_status = ''running'', st_message = m,
                         st_timestamp = t\<rparr>)"
          by (rule updateScanStatus_running) simp
        from executeScanPipeline_running
          [OF this, of e resolvedPath ?withAI ?sev ?tools ?pipeline]
        have running: "status_files s2 scanId = status_files s scanId
            \<or> (\<exists>m t. status_files s2 scanId =
                   Some \<lparr>st_scanId = scanId, st_status = ''running'', st_message = m,
                         st_timestamp = t\<rparr>)"
          by (simp add: run)
        show ?thesis
        proof (cases out)
          case (Inl msg)
          with run Valid False Some Inr assms
          have "scan_failed e scanId \<lparr>error_message = msg, error_code = None\<rparr> s2 = (resp, s')"
            by (simp add: POST_def Let_def)
          moreover have "error_code \<lparr>error_message = msg, error_code = None\<rparr> = None"
            by simp
          ultimately show ?thesis using frame running Inr by blast
        next
          case out: (Inr report)
          let ?report1 = "report\<lparr>report_duration := now e Finished - now e Start\<rparr>"
          let ?report2 = "?report1\<lparr>metadata := (metadata ?report1)
                            \<lparr>risk_score := calculateRiskScore ?report1\<rparr>\<rparr>"
          from out run Valid False Some Inr assms
          have "resp = Ok ?report2 \<and>
                s' = updateScanStatus e Completed scanId ''completed''
                      ''Scan completed successfully''
                      (cacheReport e scanId ?report2 (saveToHistory e ?report2 s2))"
            by (simp add: POST_def Let_def)
          with frame show ?thesis by blast
        qed
      qed
    qed
  qed
qed

subsection \<open>Runs of the route on the sample inputs\<close>

lemma validate_sample:
  "validateContractPath (analyzer_env fs) ''contracts/Vault.sol'' = Valid ''/app/contracts/Vault.sol''"
proof -
  have "resolve ''/app'' ''contracts/Vault.sol'' = ''/app/contracts/Vault.sol''"
    by code_simp
  moreover have "includes_str ''/app/contracts/Vault.sol'' ''/app''"
    by code_simp
  moreover have "endsWith ''/app/contracts/Vault.sol'' ''.sol''"
    by code_simp
  ultimately show ?thesis
    by (simp add: validateContractPath_def analyzer_env_def)
qed


lemma countGasOptimizations_findings:
  "countGasOptimizations r = countGasOptimizations (sample_report (static r) (ai r))"
  by (simp add: countGasOptimizations_def sample_report_def)

lemma pipeline_sample:
  "executeScanPipeline (analyzer_env fs) ''scan-1'' ''/app/contracts/Vault.sol'' True ''medium''
      [''slither'', ''mythril'', ''solhint''] ''thorough'' s
   = (Inr ((result_report fs)\<lparr>report_duration := 0,
              metadata := (metadata (result_report fs))\<lparr>risk_score := Num 0\<rparr>\<rparr>),
      updateScanStatus (analyzer_env fs) Processing ''scan-1'' ''running'' ''Processing results...''
        (updateScanStatus (analyzer_env fs) RunningAI ''scan-1'' ''running'' ''Running AI analysis...''
          (updateScanStatus (analyzer_env fs) RunningStatic ''scan-1'' ''running''
             ''Running static analysis...'' s)))"
proof -
  have static: "runStaticAnalysis (analyzer_env fs) p ts sv pl = Inr fs" for p ts sv pl
    by (simp add: runStaticAnalysis_def analyzer_env_def)
  have ai: "runAIAnalysis (analyzer_env fs) p pl sv = []" for p pl sv
    by (simp add: runAIAnalysis_def analyzer_env_def)
  have clock: "now (analyzer_env fs) Created div 1000 = 1754462811"
    by (simp add: analyzer_env_def)
  show ?thesis
    unfolding executeScanPipeline_def Let_def static ai clock
    by (simp add: result_report_def countGasOptimizations_findings [of "\<lparr>report_id = _, report_path = _, report_timestamp = _, report_duration = _, report_pipeline = _, static = _, ai = _, metadata = _\<rparr>"])
qed

lemma POST_sample:
  "POST (analyzer_env fs) ''scan-1'' (Inr (sample_request ''contracts/Vault.sol'')) s
   = (Ok (result_report fs),
      updateScanStatus (analyzer_env fs) Completed ''scan-1'' ''completed''
        ''Scan completed successfully''
        (cacheReport (analyzer_env fs) ''scan-1'' (result_report fs)
          (saveToHistory (analyzer_env fs) (result_report fs)
            (updateScanStatus (analyzer_env fs) Processing ''scan-1'' ''running''
               ''Processing results...''
              (updateScanStatus (analyzer_env fs) RunningAI ''scan-1'' ''running''
                 ''Running AI analysis...''
                (updateScanStatus (analyzer_env fs) RunningStatic ''scan-1'' ''running''
                   ''Running static analysis...''
                  (updateScanStatus (analyzer_env fs) Initializing ''scan-1'' ''running''
                     ''Initializing scan pipeline...'' s)))))))"
proof -
  have clock: "now (analyzer_env fs) Finished - now (analyzer_env fs) Start = 5000"
    by (simp add: analyzer_env_def)
  have report: "(result_report fs)\<lparr>report_duration := 0,
        metadata := (metadata (result_report fs))\<lparr>risk_score := Num 0\<rparr>,
        report_duration := 5000\<rparr> = (result_report fs)\<lparr>metadata := (metadata (result_report fs))\<lparr>risk_score := Num 0\<rparr>\<rparr>"
    by (simp add: result_report_def)
  have score: "calculateRiskScore ((result_report fs)\<lparr>metadata := m\<rparr>)
      = calculateRiskScore (sample_report fs [])" for m
    by (simp add: calculateRiskScore_def result_report_def sample_report_def)
  have final: "(result_report fs)\<lparr>metadata := (metadata (result_report fs))
      \<lparr>risk_score := calculateRiskScore (sample_report fs [])\<rparr>\<rparr>
      = result_report fs"
    by (simp add: result_report_def)
  show ?thesis
    unfolding POST_def
    by (simp add: sample_request_def validate_sample pipeline_sample Let_def clock report
        score final)
qed

lemma POST_static_failure:
  assumes "validateContractPath e p = Valid rp" and "p \<noteq> []"
    and "\<And>c t. exec e c t = Some m"
  shows "POST e sid (Inr (sample_request p)) s =
           scan_failed e sid
             \<lparr>error_message = ''Pipeline execution failed: Static analysis failed: '' @ m,
              error_code = None\<rparr>
             (updateScanStatus e RunningStatic sid ''running'' ''Running static analysis...''
               (updateScanStatus e Initializing sid ''running''
                  ''Initializing scan pipeline...'' s))"
proof -
  have "runStaticAnalysis e rp ts sv pl = Inl (''Static analysis failed: '' @ m)" for ts sv pl
    by (simp add: runStaticAnalysis_def assms(3))
  then have "executeScanPipeline e sid rp wa sv ts pl s0 =
      (Inl (''Pipeline execution failed: Static analysis failed: '' @ m),
       updateScanStatus e RunningStatic sid ''running'' ''Running static analysis...'' s0)"
    for wa sv ts pl s0
    by (simp add: executeScanPipeline_def Let_def)
  then show ?thesis
    using assms(1,2) by (simp add: POST_def sample_request_def Let_def)
qed

lemma validateContractPath_cong:
  assumes "cwd e' = cwd e" and "stat e' = stat e"
  shows "validateContractPath e' p = validateContractPath e p"
  unfolding validateContractPath_def assms ..

lemma validate_broken:
  "validateContractPath broken_analyzer_env ''contracts/Vault.sol'' = Valid ''/app/contracts/Vault.sol''"
  "validateContractPath failing_env ''contracts/Vault.sol'' = Valid ''/app/contracts/Vault.sol''"
proof -
  have "validateContractPath broken_analyzer_env p = validateContractPath sample_env p"
    "validateContractPath failing_env p = validateContractPath sample_env p" for p
    by (rule validateContractPath_cong; simp add: failing_env_def broken_analyzer_env_def)+
  then show
    "validateContractPath broken_analyzer_env ''contracts/Vault.sol'' = Valid ''/app/contracts/Vault.sol''"
    "validateContractPath failing_env ''contracts/Vault.sol'' = Valid ''/app/contracts/Vault.sol''"
    by (simp_all add: sample_env_def validate_sample)
qed

lemma POST_broken:
  "POST broken_analyzer_env ''scan-1'' (Inr (sample_request ''contracts/Vault.sol'')) s =
     scan_failed broken_analyzer_env ''scan-1''
       \<lparr>error_message =
          ''Pipeline execution failed: Static analysis failed: Command failed: exit code 1'',
        error_code = None\<rparr>
       (updateScanStatus broken_analyzer_env RunningStatic ''scan-1'' ''running''
          ''Running static analysis...''
         (updateScanStatus broken_analyzer_env Initializing ''scan-1'' ''running''
            ''Initializing scan pipeline...'' s))"
  "POST failing_env ''scan-1'' (Inr (sample_request ''contracts/Vault.sol'')) s =
     scan_failed failing_env ''scan-1''
       \<lparr>error_message =
          ''Pipeline execution failed: Static analysis failed: Command failed: exit code 1'',
        error_code = None\<rparr>
       (updateScanStatus failing_env RunningStatic ''scan-1'' ''running''
          ''Running static analysis...''
         (updateScanStatus failing_env Initializing ''scan-1'' ''running''
            ''Initializing scan pipeline...'' s))"
  using POST_static_failure [OF validate_broken(1), of "''Command failed: exit code 1''" "''scan-1''" s]
    POST_static_failure [OF validate_broken(2), of "''Command failed: exit code 1''" "''scan-1''" s]
  by (simp_all add: failing_env_def broken_analyzer_env_def)



lemma exec_broken:
  "exec broken_analyzer_env c t = Some ''Command failed: exit code 1''"
  "exec failing_env c t = Some ''Command failed: exit code 1''"
  by (simp_all add: failing_env_def broken_analyzer_env_def)

subsection \<open>Path validation\<close>

text \<open>
  Claim C2 fails on the code. With the project in \<^verbatim>\<open>/app\<close>, the paths
  \<^verbatim>\<open>/tmp/app/x.sol\<close> and \<^verbatim>\<open>../application/x.sol\<close> resolve outside the project
  directory, and \<^verbatim>\<open>validateContractPath\<close> accepts both: it asks whether the resolved
  path contains the working directory somewhere, not whether it starts with it.
\<close>

theorem path_outside_root_accepted:
  "validateContractPath sample_env ''/tmp/app/x.sol'' = Valid ''/tmp/app/x.sol''
   \<and> \<not> descendant (cwd sample_env) ''/tmp/app/x.sol''
   \<and> validateContractPath sample_env ''../application/x.sol'' = Valid ''/application/x.sol''
   \<and> \<not> descendant (cwd sample_env) ''/application/x.sol''"
  by code_simp

subsection \<open>Status of a failed scan\<close>




subsection \<open>The history ledger\<close>

lemma take_Cons_take: "take 100 (x # take 100 ys) = take 100 (x # ys)"
  by simp

lemma appends_snoc: "appends (calls @ [c]) s = saveToHistory (fst c) (snd c) (appends calls s)"
  by (simp add: appends_def)

text \<open>
  Claim C4. Start from a ledger of at most 100 entries (none, when the file does not
  exist) and make any sequence of calls of \<^verbatim>\<open>saveToHistory\<close>. Afterwards the ledger
  holds the entries of the calls whose write succeeded, newest first, followed by the
  old entries, cut after the first 100: the 100 most recent entries by append order. It
  never holds more than 100 entries.
\<close>

theorem ledger_keeps_latest_hundred:
  assumes "length (history_GET s) \<le> 100"
  shows "history_GET (appends calls s) =
           take 100 (rev (map (\<lambda>c. historyEntry (snd c))
                        (filter (\<lambda>c. io_ok (fst c) History) calls)) @ history_GET s)
         \<and> length (history_GET (appends calls s)) \<le> 100"
proof -
  have "history_GET (appends calls s) =
           take 100 (rev (map (\<lambda>c. historyEntry (snd c))
                        (filter (\<lambda>c. io_ok (fst c) History) calls)) @ history_GET s)"
  proof (induction calls rule: rev_induct)
    case Nil
    with assms show ?case by (simp add: appends_def)
  next
    case (snoc c calls)
    show ?case
    proof (cases "io_ok (fst c) History")
      case True
      then have "history_GET (appends (calls @ [c]) s) =
          take 100 (historyEntry (snd c) # history_GET (appends calls s))"
        by (simp add: appends_snoc history_GET_saveToHistory)
      also have "\<dots> = take 100 (historyEntry (snd c) #
          rev (map (\<lambda>c. historyEntry (snd c)) (filter (\<lambda>c. io_ok (fst c) History) calls))
          @ history_GET s)"
        unfolding snoc take_Cons_take by simp
      finally show ?thesis using True by simp
    next
      case False
      then show ?thesis
        by (simp add: appends_snoc history_GET_saveToHistory snoc)
    qed
  qed
  then show ?thesis by simp
qed

theorem ledger_keeps_latest_hundred_witness:
  "length (history_GET full_store) = 100
   \<and> map entry_timestamp (history_GET (appends two_calls full_store)) = map int (rev [2..<102])
   \<and> length (history_GET (appends two_calls full_store)) \<le> 100"
proof -
  have len: "length (history_GET full_store) = 100"
    by (simp add: full_store_def history_GET_def)
  then have h: "length (history_GET full_store) \<le> 100" by simp
  have "map entry_timestamp
          (take 100 (rev (map (\<lambda>c. historyEntry (snd c))
                       (filter (\<lambda>c. io_ok (fst c) History) two_calls))
                     @ history_GET full_store))
        = map int (rev [2..<102])"
    by code_simp
  with ledger_keeps_latest_hundred [OF h, of two_calls] len show ?thesis by simp
qed

text \<open>
  Claim C10. A request changes the ledger only when it answers with the report: then
  the entry of that report, whose status is \<^verbatim>\<open>completed\<close>, is put in front of the
  ledger (if the write succeeds). A request that answers with an error (400 or 500)
  leaves the ledger, and so the history view, as it was.
\<close>

theorem history_entry_only_on_success:
  assumes "POST e scanId body s = (resp, s')"
  shows "(\<forall>report. resp = Ok report \<longrightarrow>
            history_file s' =
              (if io_ok e History then Some (take 100 (historyEntry report # history_GET s))
               else history_file s)
            \<and> entry_status (historyEntry report) = ''completed'')
         \<and> ((\<forall>report. resp \<noteq> Ok report) \<longrightarrow>
              history_file s' = history_file s \<and> history_GET s' = history_GET s)"
proof -
  have status: "entry_status (historyEntry report) = ''completed''" for report
    by (simp add: historyEntry_def)
  from POST_cases [OF assms] consider
    (failed) x s0 where "scan_failed e scanId x s0 = (resp, s')"
      "history_file s0 = history_file s"
    | (bad) err code where "resp = Bad_request err code" "s' = s"
    | (ok) report s2 where "resp = Ok report" "history_file s2 = history_file s"
      "s' = updateScanStatus e Completed scanId ''completed''
              ''Scan completed successfully''
              (cacheReport e scanId report (saveToHistory e report s2))"
    by blast
  then show ?thesis
  proof cases
    case failed
    from failed(1) obtain err code where "resp = Server_error err code scanId"
      "s' = updateScanStatus e Failed scanId ''failed'' (error_message x) s0"
      unfolding scan_failed_def by auto
    with failed(2) show ?thesis by (simp add: history_GET_def)
  next
    case bad
    then show ?thesis by simp
  next
    case ok
    then show ?thesis
      by (simp add: history_file_saveToHistory history_GET_def status)
  qed
qed

theorem history_entry_only_on_success_witness:
  "fst (POST sample_env ''scan-1'' (Inr (sample_request ''contracts/Vault.sol'')) empty_store)
     = Ok (result_report [sample_finding ''high'' ''Reentrancy'' None,
                          sample_finding ''medium'' ''Timestamp dependence'' None])
   \<and> history_file
         (snd (POST sample_env ''scan-1'' (Inr (sample_request ''contracts/Vault.sol''))
                 empty_store))
       = Some [historyEntry (result_report [sample_finding ''high'' ''Reentrancy'' None,
                          sample_finding ''medium'' ''Timestamp dependence'' None])]
   \<and> fst (POST failing_env ''scan-1'' (Inr (sample_request ''contracts/Vault.sol'')) full_store)
       = Server_error
           ''Pipeline execution failed: Static analysis failed: Command failed: exit code 1''
           ''SCAN_FAILED'' ''scan-1''
   \<and> history_file
         (snd (POST failing_env ''scan-1'' (Inr (sample_request ''contracts/Vault.sol''))
                 full_store))
       = history_file full_store"
proof -
  let ?fs = "[sample_finding ''high'' ''Reentrancy'' None,
              sample_finding ''medium'' ''Timestamp dependence'' None]"
  let ?good = "POST sample_env ''scan-1'' (Inr (sample_request ''contracts/Vault.sol'')) empty_store"
  let ?bad = "POST failing_env ''scan-1'' (Inr (sample_request ''contracts/Vault.sol'')) full_store"
  let ?m = "''Pipeline execution failed: Static analysis failed: Command failed: exit code 1''"
  have good: "fst ?good = Ok (result_report ?fs)"
    unfolding sample_env_def POST_sample by simp
  have io: "io_ok sample_env History"
    by (simp add: sample_env_def analyzer_env_def)
  have empty: "history_GET empty_store = []"
    by (simp add: history_GET_def empty_store_def)
  have bad: "fst ?bad = Server_error ?m ''SCAN_FAILED'' ''scan-1''"
    unfolding POST_broken(2) by (simp add: scan_failed_def)
  have g: "?good = (fst ?good, snd ?good)" and b: "?bad = (fst ?bad, snd ?bad)"
    by simp_all
  from history_entry_only_on_success [OF g] good io empty
  have "history_file (snd ?good) = Some [historyEntry (result_report ?fs)]"
    by simp
  moreover from history_entry_only_on_success [OF b] bad
  have "history_file (snd ?bad) = history_file full_store"
    by simp
  ultimately show ?thesis using good bad by simp
qed

subsection \<open>Severities outside the five canonical values\<close>





section \<open>Properties of the analytics\<close>

subsection \<open>Association lists built from a list of keys\<close>

lemma map_of_keys:
  "map_of (map (\<lambda>k. (k, f k)) ks) k = (if k \<in> set ks then Some (f k) else None)"
  by (induction ks) auto

lemma update_keys:
  "distinct ks \<Longrightarrow> k \<in> set ks \<Longrightarrow>
   AList.update k v (map (\<lambda>k. (k, f k)) ks) = map (\<lambda>j. (j, if j = k then v else f j)) ks"
proof (induction ks)
  case Nil
  then show ?case by simp
next
  case (Cons j ks)
  show ?case
  proof (cases "j = k")
    case True
    with Cons.prems have "k \<notin> set ks" by simp
    then have "map (\<lambda>j. (j, if j = k then v else f j)) ks = map (\<lambda>k. (k, f k)) ks"
      by (intro map_cong) auto
    with True show ?thesis by simp
  next
    case False
    with Cons show ?thesis by simp
  qed
qed

lemma set_entries: "set (entries obj) = set obj"
  by (auto simp: entries_def)

lemma distinct_keys_entries:
  assumes "distinct (map fst obj)"
  shows "distinct (map fst (entries obj))"
proof -
  from assms have d: "distinct obj" and i: "inj_on fst (set obj)"
    by (simp_all add: distinct_map)
  have "distinct (entries obj)"
    using d by (auto simp: entries_def)
  moreover have "inj_on fst (set (entries obj))"
    using i by (simp add: set_entries)
  ultimately show ?thesis by (simp add: distinct_map)
qed

subsection \<open>The loop of the scan trends\<close>

lemma day_trend_snoc:
  "day_trend d (es @ [e]) k =
     (if d (entry_timestamp e) = k then count_scan e (day_trend d es k) else day_trend d es k)"
  by (simp add: day_trend_def count_scan_def Let_def)

lemma day_trend_unseen:
  "k \<notin> set (map (\<lambda>e. d (entry_timestamp e)) es) \<Longrightarrow>
   day_trend d es k = \<lparr>trend_date = k, trend_scans = 0, trend_findings = 0, riskScores = []\<rparr>"
proof -
  assume "k \<notin> set (map (\<lambda>e. d (entry_timestamp e)) es)"
  then have "filter (\<lambda>e. d (entry_timestamp e) = k) es = []"
    by (auto simp: filter_empty_conv)
  then show ?thesis by (simp add: day_trend_def)
qed

lemma add_scan_keys:
  assumes "valid_time (entry_timestamp e)" and "\<not> inherited (d (entry_timestamp e))"
    and "distinct ks" and "set ks = set (map (\<lambda>e. d (entry_timestamp e)) es)"
  shows "\<exists>ks'. add_scan d (map (\<lambda>k. (k, day_trend d es k)) ks) e
              = Inr (map (\<lambda>k. (k, day_trend d (es @ [e]) k)) ks')
           \<and> distinct ks' \<and> set ks' = set (map (\<lambda>e. d (entry_timestamp e)) (es @ [e]))"
proof (cases "d (entry_timestamp e) \<in> set ks")
  case True
  let ?k = "d (entry_timestamp e)"
  have "add_scan d (map (\<lambda>k. (k, day_trend d es k)) ks) e
      = Inr (AList.update ?k (count_scan e (day_trend d es ?k))
               (map (\<lambda>k. (k, day_trend d es k)) ks))"
    using True assms(1) by (simp add: add_scan_def get_def map_of_keys Let_def)
  also have "\<dots> = Inr (map (\<lambda>k. (k, day_trend d (es @ [e]) k)) ks)"
    using True assms(3) by (simp add: update_keys day_trend_snoc cong: if_cong)
  finally show ?thesis using True assms(3,4) by auto
next
  case False
  let ?k = "d (entry_timestamp e)"
  have "add_scan d (map (\<lambda>k. (k, day_trend d es k)) ks) e
      = Inr (map (\<lambda>k. (k, day_trend d es k)) ks
             @ [(?k, count_scan e \<lparr>trend_date = ?k, trend_scans = 0, trend_findings = 0,
                                    riskScores = []\<rparr>)])"
    using False assms(1,2) by (simp add: add_scan_def get_def map_of_keys Let_def)
  also have "\<dots> = Inr (map (\<lambda>k. (k, day_trend d (es @ [e]) k)) (ks @ [?k]))"
    using False assms(4) day_trend_unseen [of ?k d es]
    by (auto simp: day_trend_snoc)
  finally show ?thesis using False assms(3,4) by (intro exI [of _ "ks @ [?k]"]) auto
qed

lemma scan_loop_keys:
  assumes "\<forall>e \<in> set rest. valid_time (entry_timestamp e) \<and> \<not> inherited (d (entry_timestamp e))"
    and "distinct ks" and "set ks = set (map (\<lambda>e. d (entry_timestamp e)) es)"
  shows "\<exists>ks'. scan_loop d (map (\<lambda>k. (k, day_trend d es k)) ks) rest
              = Inr (map (\<lambda>k. (k, day_trend d (es @ rest) k)) ks')
           \<and> distinct ks' \<and> set ks' = set (map (\<lambda>e. d (entry_timestamp e)) (es @ rest))"
  using assms
proof (induction rest arbitrary: es ks)
  case Nil
  then show ?case by auto
next
  case (Cons e rest)
  from Cons.prems obtain ks1 where
    step: "add_scan d (map (\<lambda>k. (k, day_trend d es k)) ks) e
            = Inr (map (\<lambda>k. (k, day_trend d (es @ [e]) k)) ks1)"
    and ks1: "distinct ks1" "set ks1 = set (map (\<lambda>e. d (entry_timestamp e)) (es @ [e]))"
    using add_scan_keys [of e d ks es] by auto
  from Cons.prems(1) have
    "\<forall>e \<in> set rest. valid_time (entry_timestamp e) \<and> \<not> inherited (d (entry_timestamp e))"
    by simp
  from Cons.IH [OF this ks1] step show ?case by simp
qed

lemma distinct_map_sort_key:
  "distinct (map f xs) \<Longrightarrow> distinct (map f (sort_key g xs))"
  by (simp add: distinct_map)

lemma summarize_day_trend:
  "k \<in> set (map (\<lambda>e. d (entry_timestamp e)) es) \<Longrightarrow>
   summarize (day_trend d es k) = stated_bucket d es k"
proof -
  assume "k \<in> set (map (\<lambda>e. d (entry_timestamp e)) es)"
  then have "filter (\<lambda>e. d (entry_timestamp e) = k) es \<noteq> []"
    by (auto simp: filter_empty_conv)
  then show ?thesis
    by (simp add: summarize_def day_trend_def stated_bucket_def average_def Let_def)
qed

lemma date_stated_bucket [simp]: "date (stated_bucket d es k) = k"
  by (simp add: stated_bucket_def Let_def)

lemma sorted_trends:
  assumes "distinct ks" and "set ks = set (map (\<lambda>e. d (entry_timestamp e)) es)"
  shows "sort_key date
           (map (\<lambda>p. summarize (snd p)) (entries (map (\<lambda>k. (k, day_trend d es k)) ks)))
         = map (stated_bucket d es)
             (sorted_list_of_set (set (map (\<lambda>e. d (entry_timestamp e)) es)))"
proof -
  let ?T = "map (\<lambda>k. (k, day_trend d es k)) ks"
  let ?L = "map (\<lambda>p. summarize (snd p)) (entries ?T)"
  let ?S = "sort_key date ?L"
  have elems: "x = stated_bucket d es (date x) \<and> date x \<in> set ks" if "x \<in> set ?L" for x
  proof -
    from that obtain p where "p \<in> set (entries ?T)" "x = summarize (snd p)" by auto
    then obtain k where "k \<in> set ks" "x = summarize (day_trend d es k)"
      by (auto simp: set_entries)
    with assms(2) show ?thesis by (simp add: summarize_day_trend)
  qed
  have dates: "map date ?L = map fst (entries ?T)"
  proof -
    have "date (summarize (snd p)) = fst p" if "p \<in> set (entries ?T)" for p
      using that by (auto simp: set_entries summarize_def day_trend_def Let_def)
    then show ?thesis by simp
  qed
  have "distinct (map fst ?T)" using assms(1) by (simp add: comp_def)
  then have dist: "distinct (map date ?L)"
    unfolding dates by (rule distinct_keys_entries)
  have "set (map fst (entries ?T)) = fst ` set ?T"
    by (simp add: set_entries)
  also have "\<dots> = set ks"
    by (simp add: image_image)
  finally have "set (map date ?L) = set ks"
    unfolding dates .
  then have set: "set (map date ?S) = set (map (\<lambda>e. d (entry_timestamp e)) es)"
    using assms(2) by (simp add: image_image)
  have "sorted (map date ?S)" by (rule sorted_sort_key)
  moreover have "distinct (map date ?S)"
    using dist by (rule distinct_map_sort_key)
  ultimately have days: "map date ?S
      = sorted_list_of_set (set (map (\<lambda>e. d (entry_timestamp e)) es))"
    using set by (metis sorted_list_of_set.idem_if_sorted_distinct)
  have "map (\<lambda>x. stated_bucket d es (date x)) ?S = ?S"
    using elems by (intro map_idI) simp
  then have "?S = map (stated_bucket d es) (map date ?S)"
    by (simp add: comp_def)
  then show ?thesis
    unfolding days .
qed

lemma stated_scanTrends_cong:
  assumes "\<forall>e \<in> set history. d (entry_timestamp e) = d' (entry_timestamp e)"
  shows "stated_scanTrends d history = stated_scanTrends d' history"
proof -
  have days: "map (\<lambda>e. d (entry_timestamp e)) history = map (\<lambda>e. d' (entry_timestamp e)) history"
    using assms by simp
  have "filter (\<lambda>e. d (entry_timestamp e) = k) history
      = filter (\<lambda>e. d' (entry_timestamp e) = k) history" for k
    using assms by (intro filter_cong) simp_all
  then have "stated_bucket d history = stated_bucket d' history"
    by (simp add: stated_bucket_def fun_eq_iff)
  with days show ?thesis by (simp add: stated_scanTrends_def)
qed

lemma plain_date_not_inherited: "plain_date s \<Longrightarrow> \<not> inherited s"
  by (auto simp: plain_date_def inherited_def object_prototype_names_def)

subsection \<open>Daily buckets of the scan trends\<close>

text \<open>
  Claim C7. For every ledger whose time stamps are valid times with dates of the shape
  \<^verbatim>\<open>YYYY-MM-DD\<close>, \<^verbatim>\<open>calculateScanTrends\<close> returns one bucket for each of the 30 most
  recent distinct calendar dates among the time stamps, and no other bucket; the bucket
  of a date holds the number of entries of that date, the sum of their findings counts
  and their mean risk score, rounded to an integer; the buckets are in ascending order
  of date, and there are at most 30.
\<close>

theorem scan_trends_daily_buckets:
  assumes "\<forall>e \<in> set history.
             valid_time (entry_timestamp e) \<and> plain_date (isoDate (entry_timestamp e))"
  shows "calculateScanTrends isoDate history = Inr (stated_scanTrends isoDate history)
         \<and> map date (stated_scanTrends isoDate history) =
             (let days = sorted_list_of_set
                           (set (map (\<lambda>e. isoDate (entry_timestamp e)) history))
              in drop (length days - 30) days)
         \<and> sorted (map date (stated_scanTrends isoDate history))
         \<and> distinct (map date (stated_scanTrends isoDate history))
         \<and> length (stated_scanTrends isoDate history) \<le> 30"
proof -
  let ?days = "sorted_list_of_set (set (map (\<lambda>e. isoDate (entry_timestamp e)) history))"
  from assms have "\<forall>e \<in> set history.
      valid_time (entry_timestamp e) \<and> \<not> inherited (isoDate (entry_timestamp e))"
    by (auto dest: plain_date_not_inherited)
  with scan_loop_keys [of history isoDate "[]" "[]"] obtain ks where
    loop: "scan_loop isoDate [] history = Inr (map (\<lambda>k. (k, day_trend isoDate history k)) ks)"
    and ks: "distinct ks" "set ks = set (map (\<lambda>e. isoDate (entry_timestamp e)) history)"
    by auto
  have code: "calculateScanTrends isoDate history = Inr (stated_scanTrends isoDate history)"
    unfolding calculateScanTrends_def loop
    by (simp add: sorted_trends [OF ks] stated_scanTrends_def Let_def drop_map)
  have dates: "map date (stated_scanTrends isoDate history) = drop (length ?days - 30) ?days"
    by (simp add: stated_scanTrends_def Let_def comp_def)
  have "sorted (drop (length ?days - 30) ?days)" "distinct (drop (length ?days - 30) ?days)"
    by (simp_all add: sorted_wrt_drop)
  moreover have "length (stated_scanTrends isoDate history) \<le> 30"
    by (simp add: stated_scanTrends_def Let_def)
  ultimately show ?thesis using code dates by (simp add: Let_def)
qed

theorem scan_trends_daily_buckets_witness:
  "list_all (\<lambda>e. valid_time (entry_timestamp e)) sample_ledger
   \<and> map (\<lambda>e. sample_isoDate (entry_timestamp e)) sample_ledger
       = [''2025-08-07'', ''2025-08-07'', ''2025-08-06'']
   \<and> plain_date ''2025-08-07'' \<and> plain_date ''2025-08-06''
   \<and> calculateScanTrends sample_isoDate sample_ledger
       = Inr [\<lparr>date = ''2025-08-06'', scans = 1, findings = 2, avgRiskScore = 9\<rparr>,
              \<lparr>date = ''2025-08-07'', scans = 2, findings = 5, avgRiskScore = 7\<rparr>]"
proof -
  have "sample_isoDate 1754560000 = ''2025-08-07''"
    "sample_isoDate 1754550000 = ''2025-08-07''"
    "sample_isoDate 1754462806 = ''2025-08-06''"
    unfolding sample_isoDate_def Let_def
    by (simp_all add: digit_def era_day_def era_year_def year_day_def march_month_def)
  then have days: "map (\<lambda>e. sample_isoDate (entry_timestamp e)) sample_ledger
       = [''2025-08-07'', ''2025-08-07'', ''2025-08-06'']"
    by (simp add: sample_ledger_def sample_entry_def)
  have valid: "list_all (\<lambda>e. valid_time (entry_timestamp e)) sample_ledger"
    by (simp add: sample_ledger_def sample_entry_def valid_time_def)
  have plain: "plain_date ''2025-08-07''" "plain_date ''2025-08-06''"
    by code_simp+
  with days have "\<forall>e \<in> set sample_ledger. plain_date (sample_isoDate (entry_timestamp e))"
    by (simp add: sample_ledger_def)
  with valid have h: "\<forall>e \<in> set sample_ledger.
      valid_time (entry_timestamp e) \<and> plain_date (sample_isoDate (entry_timestamp e))"
    by (simp add: list_all_iff)
  let ?table = "\<lambda>t::int. if t < 1754500000 then ''2025-08-06'' else ''2025-08-07''"
  have "\<forall>e \<in> set sample_ledger. sample_isoDate (entry_timestamp e) = ?table (entry_timestamp e)"
    using days by (simp add: sample_ledger_def sample_entry_def)
  then have "stated_scanTrends sample_isoDate sample_ledger = stated_scanTrends ?table sample_ledger"
    by (rule stated_scanTrends_cong)
  also have "\<dots>
      = [\<lparr>date = ''2025-08-06'', scans = 1, findings = 2, avgRiskScore = 9\<rparr>,
         \<lparr>date = ''2025-08-07'', scans = 2, findings = 5, avgRiskScore = 7\<rparr>]"
    by code_simp
  finally have "stated_scanTrends sample_isoDate sample_ledger
      = [\<lparr>date = ''2025-08-06'', scans = 1, findings = 2, avgRiskScore = 9\<rparr>,
         \<lparr>date = ''2025-08-07'', scans = 2, findings = 5, avgRiskScore = 7\<rparr>]" .
  with scan_trends_daily_buckets [OF h] days valid plain show ?thesis by simp
qed

subsection \<open>The window of cached reports\<close>

lemma foldl_read_scan_cong:
  "\<forall>e \<in> set es. cache' (entry_id e) = cache (entry_id e) \<Longrightarrow>
   foldl (read_scan cache') acc es = foldl (read_scan cache) acc es"
  by (induction es arbitrary: acc) (simp_all add: read_scan_def)

lemma foldl_read_scan_filter:
  "foldl (read_scan cache) acc (filter (\<lambda>e. cache (entry_id e) \<noteq> None) es)
     = foldl (read_scan cache) acc es"
  by (induction es arbitrary: acc) (auto simp: read_scan_def)

lemma take_filter_take:
  "take 50 (filter P (take 50 xs)) = filter P (take 50 xs)"
proof -
  have "length (filter P (take 50 xs)) \<le> length (take 50 xs)"
    by (rule length_filter_le)
  then show ?thesis by simp
qed

text \<open>The severity tallies and the clusters once the loop has counted given findings.\<close>

lemma increment_tally:
  assumes "\<forall>k. \<not> inherited k \<longrightarrow> map_of tallies k = tally_of T k"
  shows "\<forall>k. \<not> inherited k \<longrightarrow> map_of (increment tallies (severity f)) k = tally_of (T @ [f]) k"
proof (intro allI impI)
  fix k
  assume k: "\<not> inherited k"
  with assms have m: "map_of tallies k = tally_of T k" by simp
  show "map_of (increment tallies (severity f)) k = tally_of (T @ [f]) k"
  proof (cases "severity f = k")
    case True
    with m k show ?thesis
      by (auto simp: increment_def get_def tally_of_def Let_def update_conv' map_add_def
               split: if_splits)
  next
    case False
    then have "map_of (increment tallies (severity f)) k = map_of tallies k"
      by (auto simp: increment_def get_def update_conv' map_add_def
               split: option.splits tally.splits)
    with m False show ?thesis by (simp add: tally_of_def)
  qed
qed

lemma cluster_of_snoc:
  "cluster_of (C @ [f]) k =
     (if cluster_key (title f) = k
      then (cluster_of C k)\<lparr>cluster_count := cluster_count (cluster_of C k) + 1,
                            severities := severities (cluster_of C k) @ [severity f]\<rparr>
      else cluster_of C k)"
  by (simp add: cluster_of_def Let_def)

lemma findings_loop_counts:
  assumes "\<forall>k. \<not> inherited k \<longrightarrow> map_of tallies k = tally_of T k"
    and "vulns = map (\<lambda>k. (k, cluster_of C k)) ks"
    and "distinct ks"
    and "set ks = (\<lambda>f. cluster_key (title f)) ` set C"
    and "\<forall>f \<in> set C. \<not> inherited (cluster_key (title f))"
  shows "\<exists>ks'. (\<forall>k. \<not> inherited k \<longrightarrow>
                 map_of (fst (findings_loop (tallies, vulns) fs)) k = tally_of (T @ tallied fs) k)
           \<and> snd (findings_loop (tallies, vulns) fs)
               = map (\<lambda>k. (k, cluster_of (C @ clustered fs) k)) ks'
           \<and> distinct ks'
           \<and> set ks' = (\<lambda>f. cluster_key (title f)) ` set (C @ clustered fs)"
  using assms
proof (induction fs arbitrary: tallies vulns T C ks)
  case Nil
  then show ?case
    by (intro exI [of _ ks]) (simp add: tallied_def clustered_def)
next
  case (Cons f fs)
  let ?key = "cluster_key (title f)"
  let ?tallies = "increment tallies (severity f)"
  note t = increment_tally [OF Cons.prems(1), of f]
  show ?case
  proof (cases "inherited ?key")
    case True
    then have "?key \<notin> set ks" using Cons.prems(4,5) by auto
    then have "get vulns ?key = Inherited"
      using True by (simp add: Cons.prems(2) get_def map_of_keys)
    then have loop: "findings_loop (tallies, vulns) (f # fs) = (?tallies, vulns)"
      by (simp add: Let_def)
    have "clustered (f # fs) = []" "tallied (f # fs) = [f]"
      using True by (simp_all add: clustered_def tallied_def)
    with loop t Cons.prems(2,3,4) show ?thesis
      by (intro exI [of _ ks]) simp
  next
    case False
    have cl: "clustered (f # fs) = f # clustered fs" "tallied (f # fs) = f # tallied fs"
      using False by (simp_all add: clustered_def tallied_def)
    have inv: "\<forall>g \<in> set (C @ [f]). \<not> inherited (cluster_key (title g))"
      using False Cons.prems(5) by simp
    show ?thesis
    proof (cases "?key \<in> set ks")
      case True
      let ?c = "cluster_of C ?key"
      let ?vulns = "AList.update ?key
          (?c\<lparr>cluster_count := cluster_count ?c + 1, severities := severities ?c @ [severity f]\<rparr>)
          vulns"
      have "get vulns ?key = Own ?c"
        using True by (simp add: Cons.prems(2) get_def map_of_keys)
      then have loop: "findings_loop (tallies, vulns) (f # fs) = findings_loop (?tallies, ?vulns) fs"
        by (simp add: Let_def)
      have v: "?vulns = map (\<lambda>k. (k, cluster_of (C @ [f]) k)) ks"
        unfolding Cons.prems(2) update_keys [OF Cons.prems(3) True]
        by (intro map_cong) (auto simp: cluster_of_snoc)
      have s: "set ks = (\<lambda>f. cluster_key (title f)) ` set (C @ [f])"
        using True Cons.prems(4) by auto
      from Cons.IH [OF t v Cons.prems(3) s inv] show ?thesis
        unfolding loop cl by simp
    next
      case notin: False
      let ?vulns = "vulns @ [(?key, \<lparr>cluster_count = 1, severities = [severity f]\<rparr>)]"
      have "get vulns ?key = Undefined"
        using notin False by (simp add: Cons.prems(2) get_def map_of_keys)
      then have loop: "findings_loop (tallies, vulns) (f # fs) = findings_loop (?tallies, ?vulns) fs"
        by (simp add: Let_def)
      have none: "filter (\<lambda>g. cluster_key (title g) = ?key) C = []"
        using notin Cons.prems(4) by (fastforce simp: filter_empty_conv image_iff)
      have "map (\<lambda>k. (k, cluster_of (C @ [f]) k)) ks = map (\<lambda>k. (k, cluster_of C k)) ks"
        using notin by (intro map_cong) (auto simp: cluster_of_snoc)
      moreover have "cluster_of (C @ [f]) ?key = \<lparr>cluster_count = 1, severities = [severity f]\<rparr>"
        using none by (simp add: cluster_of_def)
      ultimately have v: "?vulns = map (\<lambda>k. (k, cluster_of (C @ [f]) k)) (ks @ [?key])"
        by (simp add: Cons.prems(2))
      have d: "distinct (ks @ [?key])" using notin Cons.prems(3) by simp
      have s: "set (ks @ [?key]) = (\<lambda>f. cluster_key (title f)) ` set (C @ [f])"
        using Cons.prems(4) by auto
      from Cons.IH [OF t v d s inv] show ?thesis
        unfolding loop cl by simp
    qed
  qed
qed

lemma clustered_not_inherited:
  "f \<in> set (clustered fs) \<Longrightarrow> \<not> inherited (cluster_key (title f))"
  unfolding clustered_def by (drule set_takeWhileD) simp

lemma foldl_read_scan_counts:
  assumes "\<forall>k. \<not> inherited k \<longrightarrow> map_of (fst acc) k = tally_of T k"
    and "snd acc = map (\<lambda>k. (k, cluster_of C k)) ks"
    and "distinct ks"
    and "set ks = (\<lambda>f. cluster_key (title f)) ` set C"
    and "\<forall>f \<in> set C. \<not> inherited (cluster_key (title f))"
  shows "\<exists>ks'. (\<forall>k. \<not> inherited k \<longrightarrow>
                 map_of (fst (foldl (read_scan cache) acc es)) k
                   = tally_of (T @ concat (map (\<lambda>r. tallied (static r @ ai r))
                                 (List.map_filter (\<lambda>e. cache (entry_id e)) es))) k)
           \<and> snd (foldl (read_scan cache) acc es)
               = map (\<lambda>k. (k, cluster_of (C @ concat (map (\<lambda>r. clustered (static r @ ai r))
                                 (List.map_filter (\<lambda>e. cache (entry_id e)) es))) k)) ks'
           \<and> distinct ks'
           \<and> set ks' = (\<lambda>f. cluster_key (title f)) `
                 set (C @ concat (map (\<lambda>r. clustered (static r @ ai r))
                                 (List.map_filter (\<lambda>e. cache (entry_id e)) es)))"
  using assms
proof (induction es arbitrary: acc T C ks)
  case Nil
  then show ?case
    by (intro exI [of _ ks]) (simp add: map_filter_simps)
next
  case (Cons e es)
  show ?case
  proof (cases "cache (entry_id e)")
    case None
    then have "read_scan cache acc e = acc" by (simp add: read_scan_def)
    with Cons.IH [OF Cons.prems] None show ?thesis
      by (simp add: map_filter_simps)
  next
    case (Some report)
    let ?fs = "static report @ ai report"
    let ?acc = "findings_loop (fst acc, snd acc) ?fs"
    have step: "read_scan cache acc e = ?acc"
      using Some by (simp add: read_scan_def)
    from findings_loop_counts [OF Cons.prems(1-5), of ?fs] obtain ks1 where
      1: "\<forall>k. \<not> inherited k \<longrightarrow> map_of (fst ?acc) k = tally_of (T @ tallied ?fs) k"
      and 2: "snd ?acc = map (\<lambda>k. (k, cluster_of (C @ clustered ?fs) k)) ks1"
      and 3: "distinct ks1"
      and 4: "set ks1 = (\<lambda>f. cluster_key (title f)) ` set (C @ clustered ?fs)"
      by blast
    have 5: "\<forall>f \<in> set (C @ clustered ?fs). \<not> inherited (cluster_key (title f))"
      using Cons.prems(5) clustered_not_inherited by auto
    from Cons.IH [OF 1 2 3 4 5] show ?thesis
      by (simp add: step Some map_filter_simps)
  qed
qed

lemma detailed_counts:
  "\<exists>ks. (\<forall>k. \<not> inherited k \<longrightarrow>
            map_of (severityDistribution (calculateDetailedAnalytics cache history)) k
              = tally_of (window_tallied cache history) k)
       \<and> topVulnerabilities (calculateDetailedAnalytics cache history)
           = take 10 (sort_key (\<lambda>v. - int (vuln_count v))
               (map (\<lambda>p. cluster_row (window_clustered cache history) (fst p))
                  (entries (map (\<lambda>k. (k, cluster_of (window_clustered cache history) k)) ks))))
       \<and> set ks = (\<lambda>f. cluster_key (title f)) ` set (window_clustered cache history)"
proof -
  have "\<forall>k. \<not> inherited k \<longrightarrow> map_of (fst ([], [])) k = tally_of [] k"
    by (simp add: tally_of_def)
  moreover have "snd (([], []) :: (string \<times> tally) list \<times> (string \<times> cluster) list)
      = map (\<lambda>k. (k, cluster_of [] k)) []"
    by simp
  moreover have "distinct ([] :: string list)" by simp
  moreover have "set ([] :: string list) = (\<lambda>f. cluster_key (title f)) ` set []" by simp
  moreover have "\<forall>f \<in> set ([] :: finding list). \<not> inherited (cluster_key (title f))" by simp
  ultimately obtain ks where
    1: "\<forall>k. \<not> inherited k \<longrightarrow>
          map_of (fst (foldl (read_scan cache) ([], []) (take 50 history))) k
            = tally_of (window_tallied cache history) k"
    and 2: "snd (foldl (read_scan cache) ([], []) (take 50 history))
          = map (\<lambda>k. (k, cluster_of (window_clustered cache history) k)) ks"
    and 4: "set ks = (\<lambda>f. cluster_key (title f)) ` set (window_clustered cache history)"
    using foldl_read_scan_counts [of "([], [])" "[]" "[]" "[]" cache "take 50 history"]
    unfolding window_tallied_def window_clustered_def window_reports_def
    by auto
  let ?C = "window_clustered cache history"
  let ?V = "map (\<lambda>k. (k, cluster_of ?C k)) ks"
  have rows: "map (\<lambda>p. \<lparr>vuln_title = titleCase (fst p), vuln_count = cluster_count (snd p),
                    avgSeverity = getMostCommonSeverity (severities (snd p))\<rparr>) (entries ?V)
      = map (\<lambda>p. cluster_row ?C (fst p)) (entries ?V)"
    by (intro map_cong) (auto simp: set_entries cluster_row_def)
  have "topVulnerabilities (calculateDetailedAnalytics cache history)
      = take 10 (sort_key (\<lambda>v. - int (vuln_count v))
          (map (\<lambda>p. \<lparr>vuln_title = titleCase (fst p), vuln_count = cluster_count (snd p),
                    avgSeverity = getMostCommonSeverity (severities (snd p))\<rparr>) (entries ?V)))"
    by (simp add: calculateDetailedAnalytics_def Let_def 2)
  then have "topVulnerabilities (calculateDetailedAnalytics cache history)
      = take 10 (sort_key (\<lambda>v. - int (vuln_count v))
          (map (\<lambda>p. cluster_row ?C (fst p)) (entries ?V)))"
    by (simp only: rows)
  moreover have "\<forall>k. \<not> inherited k \<longrightarrow>
      map_of (severityDistribution (calculateDetailedAnalytics cache history)) k
        = tally_of (window_tallied cache history) k"
    using 1 by (simp add: calculateDetailedAnalytics_def Let_def)
  ultimately show ?thesis using 4 by blast
qed

text \<open>
  Claim C9. \<^verbatim>\<open>calculateDetailedAnalytics\<close> reads the cache only at the ids of the first
  50 entries of the ledger (the 50 most recent): two caches that agree on these ids give
  the same severity distribution and the same top vulnerabilities, and the same answer
  of the analytics route. An entry whose report is missing or unreadable contributes
  nothing and stops nothing: the result is the result for the window without such
  entries, and the route answers with it whenever the scan trends can be computed. The
  reports of the window that the cache holds are counted: for every severity that is not
  the name of an inherited member, the severity distribution holds the number of tallied
  findings of that severity in these reports (and no entry where there is none); every
  row of the top vulnerabilities is the cluster of the key of a clustered finding of
  these reports, with its count and its most common severity; every such cluster has its
  row there unless there are 10 rows; the rows are in descending order of count, and
  there are at most 10.
\<close>

theorem detailed_analytics_reads_fifty:
  assumes "\<forall>e \<in> set (take 50 history). cache' (entry_id e) = cache (entry_id e)"
  shows "calculateDetailedAnalytics cache' history = calculateDetailedAnalytics cache history
         \<and> calculateDetailedAnalytics cache history =
             calculateDetailedAnalytics cache
               (filter (\<lambda>e. cache (entry_id e) \<noteq> None) (take 50 history))
         \<and> analytics_GET isoDate
               \<lparr>status_files = st, cache_files = cache', history_file = Some history\<rparr>
             = analytics_GET isoDate
                 \<lparr>status_files = st, cache_files = cache, history_file = Some history\<rparr>
         \<and> (\<forall>trends. calculateScanTrends isoDate history = Inr trends \<longrightarrow>
              (\<exists>a. analytics_GET isoDate
                     \<lparr>status_files = st, cache_files = cache, history_file = Some history\<rparr>
                     = Analytics a
                   \<and> severityDistribution a
                       = severityDistribution (calculateDetailedAnalytics cache history)
                   \<and> topVulnerabilities a
                       = topVulnerabilities (calculateDetailedAnalytics cache history)))
         \<and> (\<forall>sev. \<not> inherited sev \<longrightarrow>
              map_of (severityDistribution (calculateDetailedAnalytics cache history)) sev
                = tally_of (window_tallied cache history) sev)
         \<and> set (topVulnerabilities (calculateDetailedAnalytics cache history))
             \<subseteq> (\<lambda>f. cluster_row (window_clustered cache history) (cluster_key (title f)))
                 ` set (window_clustered cache history)
         \<and> (\<forall>f \<in> set (window_clustered cache history).
              cluster_row (window_clustered cache history) (cluster_key (title f))
                \<in> set (topVulnerabilities (calculateDetailedAnalytics cache history))
              \<or> length (topVulnerabilities (calculateDetailedAnalytics cache history)) = 10)
         \<and> sorted (map (\<lambda>v. - int (vuln_count v))
               (topVulnerabilities (calculateDetailedAnalytics cache history)))
         \<and> length (topVulnerabilities (calculateDetailedAnalytics cache history)) \<le> 10"
proof -
  let ?R = "calculateDetailedAnalytics cache history"
  let ?C = "window_clustered cache history"
  have same: "calculateDetailedAnalytics cache' history = ?R"
    unfolding calculateDetailedAnalytics_def foldl_read_scan_cong [OF assms] ..
  have skip: "?R =
      calculateDetailedAnalytics cache (filter (\<lambda>e. cache (entry_id e) \<noteq> None) (take 50 history))"
    unfolding calculateDetailedAnalytics_def take_filter_take foldl_read_scan_filter ..
  have route: "analytics_GET isoDate
           \<lparr>status_files = st, cache_files = cache', history_file = Some history\<rparr>
        = analytics_GET isoDate
            \<lparr>status_files = st, cache_files = cache, history_file = Some history\<rparr>"
    by (simp add: analytics_GET_def same split: sum.splits)
  have answer: "\<forall>trends. calculateScanTrends isoDate history = Inr trends \<longrightarrow>
      (\<exists>a. analytics_GET isoDate
             \<lparr>status_files = st, cache_files = cache, history_file = Some history\<rparr>
             = Analytics a
           \<and> severityDistribution a = severityDistribution ?R
           \<and> topVulnerabilities a = topVulnerabilities ?R)"
    by (simp add: analytics_GET_def Let_def)
  from detailed_counts [of cache history] obtain ks where
    tallies: "\<forall>k. \<not> inherited k \<longrightarrow>
        map_of (severityDistribution ?R) k = tally_of (window_tallied cache history) k"
    and tops: "topVulnerabilities ?R
        = take 10 (sort_key (\<lambda>v. - int (vuln_count v))
            (map (\<lambda>p. cluster_row ?C (fst p))
               (entries (map (\<lambda>k. (k, cluster_of ?C k)) ks))))"
    and keys: "set ks = (\<lambda>f. cluster_key (title f)) ` set ?C"
    by blast
  let ?rows = "sort_key (\<lambda>v. - int (vuln_count v))
      (map (\<lambda>p. cluster_row ?C (fst p)) (entries (map (\<lambda>k. (k, cluster_of ?C k)) ks)))"
  have "set ?rows = cluster_row ?C ` set ks"
    by (simp add: set_entries image_image)
  then have rows: "set ?rows = (\<lambda>f. cluster_row ?C (cluster_key (title f))) ` set ?C"
    by (simp add: keys image_image)
  have sub: "set (topVulnerabilities ?R)
      \<subseteq> (\<lambda>f. cluster_row ?C (cluster_key (title f))) ` set ?C"
    unfolding tops rows [symmetric] by (rule set_take_subset)
  have all: "\<forall>f \<in> set ?C.
      cluster_row ?C (cluster_key (title f)) \<in> set (topVulnerabilities ?R)
      \<or> length (topVulnerabilities ?R) = 10"
  proof (cases "length ?rows \<le> 10")
    case True
    then have "topVulnerabilities ?R = ?rows" by (simp add: tops)
    then show ?thesis using rows by simp
  next
    case False
    then have "length (topVulnerabilities ?R) = 10" by (simp add: tops)
    then show ?thesis by simp
  qed
  have "sorted (map (\<lambda>v. - int (vuln_count v)) ?rows)"
    by (rule sorted_sort_key)
  then have "sorted (take 10 (map (\<lambda>v. - int (vuln_count v)) ?rows))"
    by (rule sorted_wrt_take)
  then have order: "sorted (map (\<lambda>v. - int (vuln_count v)) (topVulnerabilities ?R))"
    by (simp add: tops take_map)
  have len: "length (topVulnerabilities ?R) \<le> 10"
    by (simp add: tops)
  from same skip route answer tallies sub all order len show ?thesis by blast
qed

theorem detailed_analytics_reads_fifty_witness:
  "length long_ledger = 60
   \<and> list_all (\<lambda>e. inner_cache (entry_id e) = window_cache (entry_id e)) (take 50 long_ledger)
   \<and> map_option (\<lambda>r. map title (static r)) (window_cache (entry_id (long_ledger ! 49)))
       = Some [''Reentrancy'']
   \<and> map_option (\<lambda>r. map title (static r)) (window_cache (entry_id (long_ledger ! 50)))
       = Some [''Unused variable'']
   \<and> inner_cache (entry_id (long_ledger ! 50)) = None
   \<and> map title (window_tallied window_cache long_ledger) = [''Reentrancy'']
   \<and> calculateDetailedAnalytics window_cache long_ledger
       = \<lparr>severityDistribution = [(''high'', Count 1)],
          topVulnerabilities =
            [\<lparr>vuln_title = ''Reentrancy'', vuln_count = 1, avgSeverity = Some ''high''\<rparr>]\<rparr>
   \<and> map_of (severityDistribution (calculateDetailedAnalytics window_cache long_ledger)) ''high''
       = tally_of (window_tallied window_cache long_ledger) ''high''"
proof -
  have len: "length long_ledger = 60" by (simp add: long_ledger_def)
  have agree: "list_all (\<lambda>e. inner_cache (entry_id e) = window_cache (entry_id e))
      (take 50 long_ledger)"
    by code_simp
  then have h: "\<forall>e \<in> set (take 50 long_ledger).
      inner_cache (entry_id e) = window_cache (entry_id e)"
    by (simp add: list_all_iff)
  have inside: "map_option (\<lambda>r. map title (static r)) (window_cache (entry_id (long_ledger ! 49)))
      = Some [''Reentrancy'']"
    by code_simp
  have outside: "map_option (\<lambda>r. map title (static r)) (window_cache (entry_id (long_ledger ! 50)))
      = Some [''Unused variable'']"
    "inner_cache (entry_id (long_ledger ! 50)) = None"
    by code_simp+
  have read: "map title (window_tallied window_cache long_ledger) = [''Reentrancy'']"
    by code_simp
  have inner: "calculateDetailedAnalytics inner_cache long_ledger
      = \<lparr>severityDistribution = [(''high'', Count 1)],
         topVulnerabilities =
           [\<lparr>vuln_title = ''Reentrancy'', vuln_count = 1, avgSeverity = Some ''high''\<rparr>]\<rparr>"
    by code_simp
  have plain: "\<not> inherited ''high''"
    by (simp add: inherited_def object_prototype_names_def)
  note inst = detailed_analytics_reads_fifty
    [OF h, where isoDate = sample_isoDate and st = Map.empty]
  from inst have "calculateDetailedAnalytics inner_cache long_ledger
      = calculateDetailedAnalytics window_cache long_ledger"
    by (elim conjE)
  moreover from inst have "\<forall>sev. \<not> inherited sev \<longrightarrow>
      map_of (severityDistribution (calculateDetailedAnalytics window_cache long_ledger)) sev
        = tally_of (window_tallied window_cache long_ledger) sev"
    by (elim conjE)
  ultimately show ?thesis using len agree inside outside read inner plain by simp
qed

subsection \<open>Vulnerability clusters\<close>

text \<open>
  Claim C8 fails on the code. The report of the sample cache has three findings, titled
  \<^verbatim>\<open>Reentrancy\<close> (high), \<^verbatim>\<open>constructor()\<close> (medium) and \<^verbatim>\<open>Reentrancy\<close> (critical),
  whose keys are \<^verbatim>\<open>reentrancy\<close>, \<^verbatim>\<open>constructor\<close> and \<^verbatim>\<open>reentrancy\<close>. The claim asks for
  the clusters \<^verbatim>\<open>Reentrancy\<close> with count 2 and \<^verbatim>\<open>Constructor\<close> with count 1. The code
  finds the inherited member \<^verbatim>\<open>constructor\<close> of the object \<^verbatim>\<open>vulnerabilities\<close> in place
  of a cluster, throws on \<^verbatim>\<open>push\<close>, and leaves the report: there is no cluster
  \<^verbatim>\<open>Constructor\<close>, and the third finding is not counted.
\<close>

theorem constructor_cluster_lost:
  "map (\<lambda>f. cluster_key (title f)) (static (the (sample_cache ''scan-1'')))
     = [''reentrancy'', ''constructor'', ''reentrancy'']
   \<and> calculateDetailedAnalytics sample_cache sample_ledger
       = \<lparr>severityDistribution = [(''high'', Count 1), (''medium'', Count 1)],
          topVulnerabilities =
            [\<lparr>vuln_title = ''Reentrancy'', vuln_count = 1, avgSeverity = Some ''high''\<rparr>]\<rparr>"
  by code_simp

end
